theory Spec2Isabelle
  imports Main "HOL-Library.Char_ord" "HOL-Library.List_Lexorder"
begin

section \<open>Python values and the environment\<close>

text \<open>
  The exceptions that the modelled code can raise.  \<open>ParseError\<close> is the one of
  \<open>ET.parse\<close>, \<open>SyntaxError\<close> the one of an ElementPath lookup whose prefix is not in the
  prefix map, \<open>AttributeError\<close> the one of \<open>None.find\<close>, \<open>ValueError\<close> the one of \<open>int\<close>
  on a non-numeric string and of \<open>datetime.fromtimestamp\<close> on a timestamp out of range,
  \<open>OverflowError\<close> the one of a true division whose quotient does not fit a float,
  \<open>OSError\<close> the one of opening a file that does not exist.  \<open>str_exn\<close> stands for \<open>str(e)\<close>;
  the texts are representative ones.
\<close>

datatype exn = ParseError | SyntaxError | AttributeError | ValueError
  | OverflowError | ZeroDivisionError | OSError

fun str_exn :: "exn \<Rightarrow> string" where
  "str_exn ParseError = ''syntax error''"
| "str_exn SyntaxError = ''prefix not found in prefix map''"
| "str_exn AttributeError = ''NoneType object has no attribute find''"
| "str_exn ValueError = ''invalid literal''"
| "str_exn OverflowError = ''integer division result too large for a float''"
| "str_exn ZeroDivisionError = ''division by zero''"
| "str_exn OSError = ''No such file or directory''"

text \<open>Sequencing: an exception of the first computation ends the whole.\<close>

definition bind_exn :: "exn + 'a \<Rightarrow> ('a \<Rightarrow> exn + 'b) \<Rightarrow> exn + 'b" where
  "bind_exn m f = (case m of Inl e \<Rightarrow> Inl e | Inr x \<Rightarrow> f x)"

text \<open>
  A rate is either the integer literal of the \<open>else 0\<close> branches or a float, a value of
  the type \<open>'f\<close> that the environment supplies.
\<close>

datatype 'f num = IntV int | FloatV 'f

text \<open>
  What the code takes from the standard library and the operating system:
  \<^item> \<open>fromtimestamp_ymd t\<close> is \<open>datetime.fromtimestamp(t).strftime('%Y-%m-%d')\<close> in the local
    time zone, \<open>None\<close> where \<open>fromtimestamp\<close> raises;
  \<^item> \<open>gethostbyaddr ip\<close> is \<open>socket.gethostbyaddr(ip)[0]\<close>, \<open>None\<close> where it raises;
  \<^item> \<open>round_pct p c\<close> is the float \<open>round(p / c * 100, 2)\<close> for \<open>c \<noteq> 0\<close>, \<open>None\<close> where the
    true division overflows;
  \<^item> \<open>float_lt f k\<close> is the comparison \<open>f < k\<close> of a float with an integer;
  \<^item> \<open>py_int s\<close> is \<open>int(s)\<close> on a string, \<open>None\<close> where it raises.
\<close>

record 'f env =
  fromtimestamp_ymd :: "int \<Rightarrow> string option"
  gethostbyaddr :: "string option \<Rightarrow> string option"
  round_pct :: "int \<Rightarrow> int \<Rightarrow> 'f option"
  float_lt :: "'f \<Rightarrow> int \<Rightarrow> bool"
  py_int :: "string \<Rightarrow> int option"

fun num_lt :: "'f env \<Rightarrow> 'f num \<Rightarrow> int \<Rightarrow> bool" where
  "num_lt env (IntV i) k = (i < k)"
| "num_lt env (FloatV f) k = float_lt env f k"

section \<open>Records and reports\<close>

record dmarc_record =
  source_ip :: "string option"
  count :: int
  disposition :: "string option"
  dkim :: "string option"
  spf :: "string option"
  header_from :: "string option"

record report =
  org_name :: "string option"
  report_id :: "string option"
  domain :: "string option"
  policy :: "string option"
  date_begin :: int
  date_end :: int
  records :: "dmarc_record list"

section \<open>The aggregator\<close>

text \<open>The values of the two \<open>defaultdict\<close>s \<open>ip_data\<close> and \<open>daily_stats\<close>.\<close>

record ip_stats =
  ip_count :: int
  ip_dkim_pass :: int
  ip_spf_pass :: int
  ip_dmarc_pass :: int

record day_stats =
  day_total :: int
  day_dkim_pass :: int
  day_spf_pass :: int
  day_dmarc_pass :: int

definition ip_default :: ip_stats where
  "ip_default = \<lparr>ip_count = 0, ip_dkim_pass = 0, ip_spf_pass = 0, ip_dmarc_pass = 0\<rparr>"

definition day_default :: day_stats where
  "day_default = \<lparr>day_total = 0, day_dkim_pass = 0, day_spf_pass = 0, day_dmarc_pass = 0\<rparr>"

text \<open>
  A \<open>defaultdict\<close> is an association list in insertion order: \<open>dd_update f d k\<close> applies
  \<open>f\<close> to the value at \<open>k\<close>, which is first created as \<open>d\<close> at the end when \<open>k\<close> is new.
\<close>

fun dd_update :: "('v \<Rightarrow> 'v) \<Rightarrow> 'v \<Rightarrow> 'k \<Rightarrow> ('k \<times> 'v) list \<Rightarrow> ('k \<times> 'v) list" where
  "dd_update f d k [] = [(k, f d)]"
| "dd_update f d k ((k', v) # kvs) =
     (if k' = k then (k', f v) # kvs else (k', v) # dd_update f d k kvs)"

fun dd_get :: "'v \<Rightarrow> 'k \<Rightarrow> ('k \<times> 'v) list \<Rightarrow> 'v" where
  "dd_get d k [] = d"
| "dd_get d k ((k', v) # kvs) = (if k' = k then v else dd_get d k kvs)"

text \<open>\<open>domains.add\<close>: the set is kept as a list without duplicates.\<close>

definition set_add :: "'a \<Rightarrow> 'a list \<Rightarrow> 'a list" where
  "set_add x xs = (if x \<in> set xs then xs else xs @ [x])"

text \<open>The local variables of \<open>_generate_analytics\<close> that the loops update.\<close>

record acc =
  total_messages :: int
  dkim_pass :: int
  dkim_fail :: int
  spf_pass :: int
  spf_fail :: int
  dmarc_pass :: int
  dmarc_fail :: int
  ip_data :: "(string option \<times> ip_stats) list"
  source_orgs :: "(string option \<times> int) list"
  domains :: "string option list"
  dispositions :: "(string option \<times> int) list"
  earliest :: "int option"
  latest :: "int option"
  daily_stats :: "(string \<times> day_stats) list"

definition acc_init :: acc where
  "acc_init = \<lparr>total_messages = 0, dkim_pass = 0, dkim_fail = 0, spf_pass = 0, spf_fail = 0,
     dmarc_pass = 0, dmarc_fail = 0, ip_data = [], source_orgs = [], domains = [],
     dispositions = [], earliest = None, latest = None, daily_stats = []\<rparr>"

definition is_pass :: "string option \<Rightarrow> bool" where
  "is_pass v = (v = Some ''pass'')"

text \<open>
  The body of the loop over the records of a report: the running totals, the entry of
  the source IP, the dispositions, and then the entry of the day.
\<close>

definition ip_step :: "dmarc_record \<Rightarrow> ip_stats \<Rightarrow> ip_stats" where
  "ip_step r s =
     s\<lparr>ip_count := ip_count s + count r,
       ip_dkim_pass := (if is_pass (dkim r) then ip_dkim_pass s + count r else ip_dkim_pass s),
       ip_spf_pass := (if is_pass (spf r) then ip_spf_pass s + count r else ip_spf_pass s),
       ip_dmarc_pass := (if is_pass (dkim r) \<and> is_pass (spf r)
                         then ip_dmarc_pass s + count r else ip_dmarc_pass s)\<rparr>"

definition day_step :: "dmarc_record \<Rightarrow> day_stats \<Rightarrow> day_stats" where
  "day_step r s =
     s\<lparr>day_total := day_total s + count r,
       day_dkim_pass := (if is_pass (dkim r) then day_dkim_pass s + count r
                         else day_dkim_pass s),
       day_spf_pass := (if is_pass (spf r) then day_spf_pass s + count r else day_spf_pass s),
       day_dmarc_pass := (if is_pass (dkim r) \<and> is_pass (spf r)
                          then day_dmarc_pass s + count r else day_dmarc_pass s)\<rparr>"

definition count_record :: "dmarc_record \<Rightarrow> acc \<Rightarrow> acc" where
  "count_record r a =
     (let c = count r;
          dk = is_pass (dkim r);
          sp = is_pass (spf r)
      in a\<lparr>total_messages := total_messages a + c,
           dkim_pass := (if dk then dkim_pass a + c else dkim_pass a),
           dkim_fail := (if dk then dkim_fail a else dkim_fail a + c),
           spf_pass := (if sp then spf_pass a + c else spf_pass a),
           spf_fail := (if sp then spf_fail a else spf_fail a + c),
           dmarc_pass := (if dk \<and> sp then dmarc_pass a + c else dmarc_pass a),
           dmarc_fail := (if dk \<and> sp then dmarc_fail a else dmarc_fail a + c),
           ip_data := dd_update (ip_step r) ip_default (source_ip r) (ip_data a),
           dispositions := dd_update (\<lambda>n. n + c) 0 (disposition r) (dispositions a)\<rparr>)"

definition count_day :: "string \<Rightarrow> dmarc_record \<Rightarrow> acc \<Rightarrow> acc" where
  "count_day date_str r a =
     a\<lparr>daily_stats := dd_update (day_step r) day_default date_str (daily_stats a)\<rparr>"

fun process_records :: "'f env \<Rightarrow> report \<Rightarrow> dmarc_record list \<Rightarrow> acc \<Rightarrow> exn + acc" where
  "process_records env rep [] a = Inr a"
| "process_records env rep (r # rs) a =
     (let a1 = count_record r a
      in case fromtimestamp_ymd env (date_begin rep) of
           None \<Rightarrow> Inl ValueError
         | Some date_str \<Rightarrow> process_records env rep rs (count_day date_str r a1))"

definition report_header :: "report \<Rightarrow> acc \<Rightarrow> acc" where
  "report_header rep a =
     (let a1 = a\<lparr>source_orgs := dd_update (\<lambda>n. n + 1) 0 (org_name rep) (source_orgs a),
                 domains := set_add (domain rep) (domains a)\<rparr>;
          a2 = (case earliest a1 of
                  None \<Rightarrow> a1\<lparr>earliest := Some (date_begin rep)\<rparr>
                | Some t \<Rightarrow> (if date_begin rep < t
                            then a1\<lparr>earliest := Some (date_begin rep)\<rparr> else a1))
      in (case latest a2 of
            None \<Rightarrow> a2\<lparr>latest := Some (date_end rep)\<rparr>
          | Some t \<Rightarrow> (if date_end rep > t
                      then a2\<lparr>latest := Some (date_end rep)\<rparr> else a2)))"

fun process_reports :: "'f env \<Rightarrow> report list \<Rightarrow> acc \<Rightarrow> exn + acc" where
  "process_reports env [] a = Inr a"
| "process_reports env (rep # reps) a =
     (case process_records env rep (records rep) (report_header rep a) of
        Inl e \<Rightarrow> Inl e
      | Inr a' \<Rightarrow> process_reports env reps a')"

text \<open>
  The true division of \<open>round(p / c * 100, 2)\<close> raises on a zero divisor; the guarded
  expression of the code divides only when the count is positive.
\<close>

definition truediv_pct :: "'f env \<Rightarrow> int \<Rightarrow> int \<Rightarrow> exn + 'f num" where
  "truediv_pct env p c =
     (if c = 0 then Inl ZeroDivisionError
      else case round_pct env p c of None \<Rightarrow> Inl OverflowError | Some f \<Rightarrow> Inr (FloatV f))"

definition rate :: "'f env \<Rightarrow> int \<Rightarrow> int \<Rightarrow> exn + 'f num" where
  "rate env p c = (if c > 0 then truediv_pct env p c else Inr (IntV 0))"

record 'f ip_info =
  info_ip :: "string option"
  info_count :: int
  info_dkim_pass :: int
  info_spf_pass :: int
  info_dmarc_pass :: int
  info_compliance_rate :: "'f num"
  info_hostname :: string

record 'f timeline_entry =
  tl_date :: string
  tl_total :: int
  tl_dkim_pass :: int
  tl_spf_pass :: int
  tl_dmarc_pass :: int
  tl_compliance_rate :: "'f num"

fun map_exn :: "('a \<Rightarrow> exn + 'b) \<Rightarrow> 'a list \<Rightarrow> exn + 'b list" where
  "map_exn f [] = Inr []"
| "map_exn f (x # xs) =
     (case f x of
        Inl e \<Rightarrow> Inl e
      | Inr y \<Rightarrow> (case map_exn f xs of Inl e \<Rightarrow> Inl e | Inr ys \<Rightarrow> Inr (y # ys)))"

definition make_ip_info :: "'f env \<Rightarrow> string option \<times> ip_stats \<Rightarrow> exn + 'f ip_info" where
  "make_ip_info env kv =
     (case kv of (ip, stats) \<Rightarrow>
        (case rate env (ip_dmarc_pass stats) (ip_count stats) of
           Inl e \<Rightarrow> Inl e
         | Inr cr \<Rightarrow> Inr \<lparr>info_ip = ip, info_count = ip_count stats,
             info_dkim_pass = ip_dkim_pass stats, info_spf_pass = ip_spf_pass stats,
             info_dmarc_pass = ip_dmarc_pass stats, info_compliance_rate = cr,
             info_hostname = (case gethostbyaddr env ip of
                                Some hostname \<Rightarrow> hostname | None \<Rightarrow> ''Unknown'')\<rparr>))"

text \<open>
  \<open>list.sort(key=..., reverse=True)\<close> is stable: items of equal key keep their order.
  That is the stable ascending sort by the negated key.
\<close>

definition sort_by_count :: "'f ip_info list \<Rightarrow> 'f ip_info list" where
  "sort_by_count ip_list = sort_key (\<lambda>x. - info_count x) ip_list"

definition make_timeline_entry ::
  "'f env \<Rightarrow> (string \<times> day_stats) list \<Rightarrow> string \<Rightarrow> exn + 'f timeline_entry" where
  "make_timeline_entry env ds date_str =
     (let stats = dd_get day_default date_str ds
      in case rate env (day_dmarc_pass stats) (day_total stats) of
           Inl e \<Rightarrow> Inl e
         | Inr cr \<Rightarrow> Inr \<lparr>tl_date = date_str, tl_total = day_total stats,
             tl_dkim_pass = day_dkim_pass stats, tl_spf_pass = day_spf_pass stats,
             tl_dmarc_pass = day_dmarc_pass stats, tl_compliance_rate = cr\<rparr>)"

text \<open>
  A finding carries its level and the values that the code formats into its title and
  description.
\<close>

datatype 'f threat =
    LowCompliance "'f num"
  | SuspiciousIP "string option" "'f num" int
  | NoThreats


definition check_ip :: "'f env \<Rightarrow> 'f ip_info \<Rightarrow> 'f threat list \<Rightarrow> 'f threat list" where
  "check_ip env ip_info threats =
     (if num_lt env (info_compliance_rate ip_info) 50 \<and> info_count ip_info > 10
      then threats @ [SuspiciousIP (info_ip ip_info) (info_compliance_rate ip_info)
                        (info_count ip_info)]
      else threats)"

definition identify_threats :: "'f env \<Rightarrow> 'f ip_info list \<Rightarrow> 'f num \<Rightarrow> 'f threat list" where
  "identify_threats env ip_list dmarc_compliance =
     (let threats0 = (if num_lt env dmarc_compliance 80
                      then [LowCompliance dmarc_compliance] else []);
          threats1 = fold (check_ip env) (take 10 ip_list) threats0
      in if threats1 = [] then [NoThreats] else threats1)"

record 'f auth_stats =
  pass :: int
  fail :: int
  pass_rate :: "'f num"

record 'f analytics =
  summary_total_messages :: int
  summary_total_reports :: nat
  summary_domains :: "string option list"
  summary_start :: "string option"
  summary_end :: "string option"
  auth_dkim :: "'f auth_stats"
  auth_spf :: "'f auth_stats"
  auth_dmarc_compliance :: "'f num"
  out_dispositions :: "(string option \<times> int) list"
  source_organizations :: "(string option \<times> int) list"
  top_sources :: "'f ip_info list"
  timeline :: "'f timeline_entry list"
  threats :: "'f threat list"

text \<open>
  \<open>fromtimestamp(t).strftime(...) if t else None\<close>: \<open>None\<close> and \<open>0\<close> are both false.
\<close>

definition date_or_none :: "'f env \<Rightarrow> int option \<Rightarrow> exn + string option" where
  "date_or_none env t =
     (case t of
        None \<Rightarrow> Inr None
      | Some v \<Rightarrow> (if v = 0 then Inr None
                   else case fromtimestamp_ymd env v of
                          None \<Rightarrow> Inl ValueError
                        | Some s \<Rightarrow> Inr (Some s)))"

text \<open>The part of \<open>_generate_analytics\<close> after the loop over the reports.\<close>

definition finish :: "'f env \<Rightarrow> nat \<Rightarrow> acc \<Rightarrow> exn + 'f analytics" where
  "finish env n a =
     bind_exn (map_exn (make_ip_info env) (ip_data a)) (\<lambda>ip_list0.
     let ip_list = sort_by_count ip_list0 in
     bind_exn (map_exn (make_timeline_entry env (daily_stats a))
                 (sort (map fst (daily_stats a)))) (\<lambda>timeline_list.
     bind_exn (rate env (dkim_pass a) (total_messages a)) (\<lambda>dkim_pass_rate.
     bind_exn (rate env (spf_pass a) (total_messages a)) (\<lambda>spf_pass_rate.
     bind_exn (rate env (dmarc_pass a) (total_messages a)) (\<lambda>dmarc_compliance.
     bind_exn (date_or_none env (earliest a)) (\<lambda>start_str.
     bind_exn (date_or_none env (latest a)) (\<lambda>end_str.
     Inr \<lparr>summary_total_messages = total_messages a,
          summary_total_reports = n,
          summary_domains = domains a,
          summary_start = start_str,
          summary_end = end_str,
          auth_dkim = \<lparr>pass = dkim_pass a, fail = dkim_fail a, pass_rate = dkim_pass_rate\<rparr>,
          auth_spf = \<lparr>pass = spf_pass a, fail = spf_fail a, pass_rate = spf_pass_rate\<rparr>,
          auth_dmarc_compliance = dmarc_compliance,
          out_dispositions = dispositions a,
          source_organizations = source_orgs a,
          top_sources = take 20 ip_list,
          timeline = timeline_list,
          threats = identify_threats env ip_list dmarc_compliance\<rparr>)))))))"

definition generate_analytics :: "'f env \<Rightarrow> report list \<Rightarrow> exn + 'f analytics" where
  "generate_analytics env reports =
     (case process_reports env reports acc_init of
        Inl e \<Rightarrow> Inl e
      | Inr a \<Rightarrow> finish env (length reports) a)"

section \<open>The report parser\<close>

text \<open>
  An element of the tree that \<open>ET.parse\<close> builds: its tag (a namespaced tag is
  \<open>{uri}name\<close>), its text and its children.  An element is true when it has children.
\<close>

datatype xml = Elem (etag: string) (etext: "string option") (children: "xml list")

definition dmarc_uri :: string where
  "dmarc_uri = ''urn:ietf:params:xml:ns:dmarc-2.0''"

text \<open>
  The paths of the code are a name or \<open>ns:\<close> and a name.  The prefix map \<open>ns\<close> of the code
  is \<open>{'ns': uri}\<close> (\<open>Some uri\<close>) or the empty dictionary (\<open>None\<close>).
\<close>

datatype path = Plain string | Prefixed string

fun literal :: "path \<Rightarrow> string" where
  "literal (Plain name) = name"
| "literal (Prefixed name) = ''ns:'' @ name"

text \<open>
  \<open>element.find(path)\<close> without a prefix map compares the tags of the children with
  the path as it is written (CPython's \<open>_elementtree\<close>).  \<open>element.find(path, ns)\<close> goes
  through \<open>ElementPath\<close>, which replaces the prefix by the URI of the map and raises
  \<open>SyntaxError\<close> when the map is empty.  \<open>findall\<close> does the same for all matches.
\<close>

definition elem_find :: "xml \<Rightarrow> path \<Rightarrow> xml option" where
  "elem_find el p = List.find (\<lambda>c. etag c = literal p) (children el)"

fun resolve :: "path \<Rightarrow> string option \<Rightarrow> exn + string" where
  "resolve (Plain name) ns = Inr name"
| "resolve (Prefixed name) None = Inl SyntaxError"
| "resolve (Prefixed name) (Some uri) = Inr (''{'' @ uri @ ''}'' @ name)"

definition elem_find_ns :: "xml \<Rightarrow> path \<Rightarrow> string option \<Rightarrow> exn + xml option" where
  "elem_find_ns el p ns =
     (case resolve p ns of
        Inl e \<Rightarrow> Inl e
      | Inr t \<Rightarrow> Inr (List.find (\<lambda>c. etag c = t) (children el)))"

definition elem_findall :: "xml \<Rightarrow> path \<Rightarrow> xml list" where
  "elem_findall el p = filter (\<lambda>c. etag c = literal p) (children el)"

definition elem_findall_ns :: "xml \<Rightarrow> path \<Rightarrow> string option \<Rightarrow> exn + xml list" where
  "elem_findall_ns el p ns =
     (case resolve p ns of
        Inl e \<Rightarrow> Inl e
      | Inr t \<Rightarrow> Inr (filter (\<lambda>c. etag c = t) (children el)))"

text \<open>
  The helper \<open>find_text\<close> of the parser: a false prefix map (\<open>None\<close> or empty) takes the
  lookup without a map.  On \<open>None\<close> for the element, \<open>None.find\<close> raises.
\<close>

fun find_text :: "xml option \<Rightarrow> path \<Rightarrow> string option \<Rightarrow> exn + string option" where
  "find_text None p namespaces = Inl AttributeError"
| "find_text (Some element) p None =
     Inr (case elem_find element p of None \<Rightarrow> None | Some elem \<Rightarrow> etext elem)"
| "find_text (Some element) p (Some uri) =
     bind_exn (elem_find_ns element p (Some uri))
       (\<lambda>found. Inr (case found of None \<Rightarrow> None | Some elem \<Rightarrow> etext elem))"

text \<open>
  \<open>element.find(name) or element.find('ns:' + name, ns)\<close>: the second lookup runs when
  the first finds nothing or finds an element without children.
\<close>

fun find_or :: "xml option \<Rightarrow> string \<Rightarrow> string option \<Rightarrow> exn + xml option" where
  "find_or None name ns = Inl AttributeError"
| "find_or (Some element) name ns =
     (case elem_find element (Plain name) of
        None \<Rightarrow> elem_find_ns element (Prefixed name) ns
      | Some c \<Rightarrow> (if children c \<noteq> [] then Inr (Some c)
                   else elem_find_ns element (Prefixed name) ns))"

text \<open>
  \<open>find_text(e, name) or find_text(e, 'ns:' + name, ns)\<close>: a string is true when it is
  not empty.
\<close>

definition str_true :: "string option \<Rightarrow> bool" where
  "str_true t = (case t of None \<Rightarrow> False | Some s \<Rightarrow> s \<noteq> [])"

definition text_or :: "xml option \<Rightarrow> string \<Rightarrow> string option \<Rightarrow> exn + string option" where
  "text_or element name ns =
     bind_exn (find_text element (Plain name) None)
       (\<lambda>t. if str_true t then Inr t else find_text element (Prefixed name) ns)"

text \<open>\<open>int(find_text(...) or find_text(...) or 0)\<close>.\<close>

definition int_or :: "'f env \<Rightarrow> xml option \<Rightarrow> string \<Rightarrow> string option \<Rightarrow> exn + int" where
  "int_or env element name ns =
     bind_exn (text_or element name ns)
       (\<lambda>t. case t of
               None \<Rightarrow> Inr 0
             | Some s \<Rightarrow> (if s = [] then Inr 0
                          else case py_int env s of None \<Rightarrow> Inl ValueError | Some i \<Rightarrow> Inr i))"

definition parse_record :: "'f env \<Rightarrow> string option \<Rightarrow> xml \<Rightarrow> exn + dmarc_record" where
  "parse_record env ns record =
     bind_exn (find_or (Some record) ''row'' ns) (\<lambda>row.
     bind_exn (text_or row ''source_ip'' ns) (\<lambda>source_ip.
     bind_exn (int_or env row ''count'' ns) (\<lambda>count.
     bind_exn (find_or row ''policy_evaluated'' ns) (\<lambda>policy_eval.
     bind_exn (text_or policy_eval ''disposition'' ns) (\<lambda>disposition.
     bind_exn (text_or policy_eval ''dkim'' ns) (\<lambda>dkim.
     bind_exn (text_or policy_eval ''spf'' ns) (\<lambda>spf.
     bind_exn (find_or (Some record) ''identifiers'' ns) (\<lambda>identifiers.
     bind_exn (text_or identifiers ''header_from'' ns) (\<lambda>header_from.
     Inr \<lparr>source_ip = source_ip, count = count, disposition = disposition,
          dkim = dkim, spf = spf, header_from = header_from\<rparr>)))))))))"

text \<open>\<open>root.findall('record') or root.findall('ns:record', ns)\<close>: an empty list is false.\<close>

definition findall_or :: "xml \<Rightarrow> string \<Rightarrow> string option \<Rightarrow> exn + xml list" where
  "findall_or element name ns =
     (if elem_findall element (Plain name) \<noteq> [] then Inr (elem_findall element (Plain name))
      else elem_findall_ns element (Prefixed name) ns)"

text \<open>The parser on the root of a tree; \<open>Inr None\<close> is the return of \<open>None\<close>.\<close>

definition parse_root :: "'f env \<Rightarrow> xml \<Rightarrow> exn + report option" where
  "parse_root env root =
     (let ns = (if take 1 (etag root) = ''{'' then Some dmarc_uri else None) in
      bind_exn (find_or (Some root) ''report_metadata'' ns) (\<lambda>metadata.
      if metadata = None then Inr None else
      bind_exn (text_or metadata ''org_name'' ns) (\<lambda>org_name.
      bind_exn (text_or metadata ''report_id'' ns) (\<lambda>report_id.
      bind_exn (find_or metadata ''date_range'' ns) (\<lambda>date_range.
      bind_exn (int_or env date_range ''begin'' ns) (\<lambda>begin_ts.
      bind_exn (int_or env date_range ''end'' ns) (\<lambda>end_ts.
      bind_exn (find_or (Some root) ''policy_published'' ns) (\<lambda>policy.
      bind_exn (text_or policy ''domain'' ns) (\<lambda>domain.
      bind_exn (text_or policy ''p'' ns) (\<lambda>policy_p.
      bind_exn (findall_or root ''record'' ns) (\<lambda>record_elems.
      bind_exn (map_exn (parse_record env ns) record_elems) (\<lambda>records.
      Inr (Some \<lparr>org_name = org_name, report_id = report_id, domain = domain,
                 policy = policy_p, date_begin = begin_ts, date_end = end_ts,
                 records = records\<rparr>)))))))))))))"

section \<open>Files and the archive unwrapper\<close>

text \<open>
  The content of a file: a well-formed XML document with its root, a ZIP or TAR archive
  with its entries (relative name and content), a gzip stream with what it
  decompresses to, or anything else.  The file system maps the paths of the files to
  their contents; its order stands for the order in which \<open>os.walk\<close> lists them.
\<close>

datatype content =
    XmlDoc xml
  | ZipArchive "(string \<times> content) list"
  | GzipFile content
  | TarArchive "(string \<times> content) list"
  | Other

type_synonym fs = "(string \<times> content) list"

fun fs_write :: "fs \<Rightarrow> string \<Rightarrow> content \<Rightarrow> fs" where
  "fs_write [] p f = [(p, f)]"
| "fs_write ((q, g) # rest) p f =
     (if q = p then (q, f) # rest else (q, g) # fs_write rest p f)"

definition endswith :: "string \<Rightarrow> string \<Rightarrow> bool" where
  "endswith s suffix =
     (length suffix \<le> length s \<and> drop (length s - length suffix) s = suffix)"

definition basename :: "string \<Rightarrow> string" where
  "basename p = rev (takeWhile (\<lambda>c. c \<noteq> CHR ''/'') (rev p))"

text \<open>\<open>os.path.join\<close> of two components on POSIX.\<close>

definition join :: "string \<Rightarrow> string \<Rightarrow> string" where
  "join a b =
     (if take 1 b = ''/'' then b
      else if a = [] \<or> endswith a ''/'' then a @ b
      else a @ ''/'' @ b)"

text \<open>\<open>extractall\<close> writes every entry below the directory.\<close>

fun extractall :: "fs \<Rightarrow> string \<Rightarrow> (string \<times> content) list \<Rightarrow> fs" where
  "extractall fs dir [] = fs"
| "extractall fs dir ((name, f) # entries) = extractall (fs_write fs (join dir name) f) dir entries"

text \<open>\<open>_find_xml_files\<close>: the files below the directory whose name ends in \<open>.xml\<close>.\<close>

definition in_dir :: "string \<Rightarrow> string \<Rightarrow> bool" where
  "in_dir dir p = (take (length dir + 1) p = dir @ ''/'')"

definition find_xml_files :: "string \<Rightarrow> fs \<Rightarrow> string list" where
  "find_xml_files directory fs =
     filter (\<lambda>p. in_dir directory p \<and> endswith (basename p) ''.xml'') (map fst fs)"

text \<open>The name of the file shrinks at the recursive call of \<open>_extract_files\<close>.\<close>

lemma length_basename_append:
  "length (basename (a @ CHR ''/'' # b)) \<le> length b"
proof -
  have "length (takeWhile (\<lambda>c. c \<noteq> CHR ''/'') (xs @ CHR ''/'' # ys)) \<le> length xs"
    for xs ys :: string
    by (induction xs) auto
  from this [of "rev b" "rev a"] show ?thesis by (simp add: basename_def)
qed

lemma length_basename_le: "length (basename p) \<le> length p"
  by (simp add: basename_def) (metis length_rev length_takeWhile_le)

lemma length_basename_join: "length (basename (join a b)) \<le> length b"
proof (cases "take 1 b = ''/''")
  case True
  then show ?thesis by (simp add: join_def length_basename_le)
next
  case False
  show ?thesis
  proof (cases "a = [] \<or> endswith a ''/''")
    case True
    then show ?thesis
    proof
      assume "a = []"
      then show ?thesis using False by (simp add: join_def length_basename_le)
    next
      assume e: "endswith a ''/''"
      then have "a \<noteq> []" by (auto simp: endswith_def)
      then obtain a' c where a: "a = a' @ [c]" by (metis rev_exhaust)
      with e have "c = CHR ''/''" by (simp add: endswith_def)
      with a have "join a b = a' @ CHR ''/'' # b"
        using False e by (simp add: join_def)
      then show ?thesis by (simp add: length_basename_append)
    qed
  next
    case F2: False
    then have "join a b = a @ CHR ''/'' # b" using False by (simp add: join_def)
    then show ?thesis by (simp add: length_basename_append)
  qed
qed

text \<open>
  \<open>_extract_files\<close> returns the XML paths and leaves the extracted files in the file
  system.  Every exception of the body is caught and the list found so far, which is
  empty at each point that can raise, is returned.
\<close>

function extract_files :: "fs \<Rightarrow> string \<Rightarrow> string \<Rightarrow> fs \<times> string list" where
  "extract_files fs file_path extract_dir =
     (let filename = basename file_path in
      if endswith filename ''.zip'' then
        (case map_of fs file_path of
           Some (ZipArchive entries) \<Rightarrow>
             (let fs' = extractall fs extract_dir entries
              in (fs', find_xml_files extract_dir fs'))
         | _ \<Rightarrow> (fs, []))
      else if endswith filename ''.gz'' then
        (let stem = take (length filename - 3) filename;
             output_path = join extract_dir stem
         in case map_of fs file_path of
              None \<Rightarrow> (fs, [])
            | Some (GzipFile inner) \<Rightarrow>
                (if stem = [] then (fs, [])
                 else let fs' = fs_write fs output_path inner
                      in if endswith output_path ''.xml'' then (fs', [output_path])
                         else extract_files fs' output_path extract_dir)
            | Some _ \<Rightarrow>
                (if stem = [] then (fs, []) else (fs_write fs output_path Other, [])))
      else if endswith filename ''.tar'' \<or> endswith filename ''.tar.gz'' then
        (case map_of fs file_path of
           Some (TarArchive entries) \<Rightarrow>
             (let fs' = extractall fs extract_dir entries
              in (fs', find_xml_files extract_dir fs'))
         | Some (GzipFile (TarArchive entries)) \<Rightarrow>
             (let fs' = extractall fs extract_dir entries
              in (fs', find_xml_files extract_dir fs'))
         | _ \<Rightarrow> (fs, []))
      else if endswith filename ''.xml'' then (fs, [file_path])
      else (fs, []))"
  by pat_completeness auto

termination extract_files
proof (relation "measure (\<lambda>(fs, file_path, extract_dir). length (basename file_path))")
  show "wf (measure (\<lambda>(fs, file_path, extract_dir). length (basename file_path)))" by simp
next
  fix fs :: fs and file_path extract_dir :: string and x xa xb x2 x3 xc
  assume gz: "endswith x ''.gz''" and x: "x = basename file_path"
    and xa: "xa = take (length x - 3) x" and xb: "xb = join extract_dir xa"
  have "3 \<le> length x" using gz by (simp add: endswith_def)
  then have "length xa < length x" using xa by simp
  moreover have "length (basename xb) \<le> length xa"
    unfolding xb by (rule length_basename_join)
  ultimately show "((xc, xb, extract_dir), fs, file_path, extract_dir)
        \<in> measure (\<lambda>(fs, file_path, extract_dir). length (basename file_path))"
    using x by simp
qed

declare extract_files.simps [simp del]

section \<open>The entry point\<close>

text \<open>The first loop of \<open>process_files\<close>: the unwrapper on every path of the batch.\<close>

fun extract_all :: "fs \<Rightarrow> string list \<Rightarrow> string \<Rightarrow> fs \<times> string list" where
  "extract_all fs [] session_dir = (fs, [])"
| "extract_all fs (file_path # rest) session_dir =
     (case extract_files fs file_path session_dir of (fs1, extracted) \<Rightarrow>
        (case extract_all fs1 rest session_dir of (fs2, xml_files) \<Rightarrow>
           (fs2, extracted @ xml_files)))"

text \<open>\<open>_parse_dmarc_xml\<close>: \<open>ET.parse\<close> raises unless the file holds an XML document.\<close>

definition parse_dmarc_xml :: "'f env \<Rightarrow> fs \<Rightarrow> string \<Rightarrow> exn + report option" where
  "parse_dmarc_xml env fs xml_file =
     (case map_of fs xml_file of
        None \<Rightarrow> Inl OSError
      | Some (XmlDoc root) \<Rightarrow> parse_root env root
      | Some _ \<Rightarrow> Inl ParseError)"

text \<open>
  The second loop: the reports that parsed and the messages of the files that raised,
  both in the order of the files.
\<close>

fun parse_all :: "'f env \<Rightarrow> fs \<Rightarrow> string list \<Rightarrow> report list \<times> string list" where
  "parse_all env fs [] = ([], [])"
| "parse_all env fs (xml_file # rest) =
     (case parse_all env fs rest of (reports, parse_errors) \<Rightarrow>
        (case parse_dmarc_xml env fs xml_file of
           Inl e \<Rightarrow>
             (reports,
              (''Error parsing '' @ basename xml_file @ '': '' @ str_exn e) # parse_errors)
         | Inr None \<Rightarrow> (reports, parse_errors)
         | Inr (Some report) \<Rightarrow> (report # reports, parse_errors)))"

text \<open>The dictionary that \<open>process_files\<close> returns; an absent key is \<open>None\<close>.\<close>

record 'f result =
  error :: "string option"
  parse_errors :: "string list option"
  files_processed :: nat
  analytics :: "'f analytics option"

definition process_files :: "'f env \<Rightarrow> fs \<Rightarrow> string list \<Rightarrow> string \<Rightarrow> 'f result" where
  "process_files env fs file_paths session_dir =
     (case extract_all fs file_paths session_dir of (fs', xml_files) \<Rightarrow>
        if xml_files = [] then
          \<lparr>error = Some ''No valid DMARC XML files found'', parse_errors = None,
           files_processed = 0, analytics = None\<rparr>
        else
          (case parse_all env fs' xml_files of (reports, errs) \<Rightarrow>
             if reports = [] then
               \<lparr>error = Some ''No valid DMARC reports could be parsed'',
                parse_errors = Some errs, files_processed = 0, analytics = None\<rparr>
             else
               (case generate_analytics env reports of
                  Inr a \<Rightarrow>
                    \<lparr>error = None, parse_errors = Some errs,
                     files_processed = length reports, analytics = Some a\<rparr>
                | Inl e \<Rightarrow>
                    \<lparr>error = Some (''Processing failed: '' @ str_exn e), parse_errors = None,
                     files_processed = 0, analytics = None\<rparr>)))"

section \<open>The upload gate\<close>

text \<open>
  \<open>allowed_file\<close> of the upload endpoint lowers the extension before it looks it up.
  \<open>lower\<close> is \<open>str.lower\<close> on ASCII letters.
\<close>

definition lower_char :: "char \<Rightarrow> char" where
  "lower_char c =
     (if CHR ''A'' \<le> c \<and> c \<le> CHR ''Z'' then char_of (of_char c + (32 :: nat)) else c)"

definition lower :: "string \<Rightarrow> string" where
  "lower s = map lower_char s"

definition ALLOWED_EXTENSIONS :: "string list" where
  "ALLOWED_EXTENSIONS = [''xml'', ''zip'', ''gz'', ''tar'']"

definition allowed_file :: "string \<Rightarrow> bool" where
  "allowed_file filename =
     (CHR ''.'' \<in> set filename \<and>
      lower (rev (takeWhile (\<lambda>c. c \<noteq> CHR ''.'') (rev filename))) \<in> set ALLOWED_EXTENSIONS)"

section \<open>Sample inputs\<close>

text \<open>
  An environment for concrete runs: two days of timestamps, no reverse DNS, floats as
  hundredths of a percent, and \<open>int\<close> on decimal digits.
\<close>

definition sample_int :: "string \<Rightarrow> int option" where
  "sample_int s =
     (if s \<noteq> [] \<and> list_all (\<lambda>c. CHR ''0'' \<le> c \<and> c \<le> CHR ''9'') s
      then Some (foldl (\<lambda>n c. 10 * n + (int (of_char c) - 48)) 0 s) else None)"

definition sample_env :: "int env" where
  "sample_env =
     \<lparr>fromtimestamp_ymd = (\<lambda>t. if 0 \<le> t \<and> t < 86400 then Some ''1970-01-01''
                               else if 86400 \<le> t \<and> t < 172800 then Some ''1970-01-02''
                               else None),
      gethostbyaddr = (\<lambda>ip. None),
      round_pct = (\<lambda>p c. Some ((2 * p * 10000 + c) div (2 * c))),
      float_lt = (\<lambda>f k. f < k * 100),
      py_int = sample_int\<rparr>"

text \<open>The report of the example of the specification.\<close>

definition sample_report :: report where
  "sample_report =
     \<lparr>org_name = Some ''Test Provider'', report_id = Some ''test-001'',
      domain = Some ''example.com'', policy = Some ''none'',
      date_begin = 1000, date_end = 2000,
      records =
        [\<lparr>source_ip = Some ''10.0.0.1'', count = 100, disposition = Some ''none'',
          dkim = Some ''pass'', spf = Some ''pass'', header_from = Some ''example.com''\<rparr>,
         \<lparr>source_ip = Some ''10.0.0.2'', count = 50, disposition = Some ''none'',
          dkim = Some ''fail'', spf = Some ''pass'', header_from = Some ''example.com''\<rparr>]\<rparr>"


section \<open>Notions for the statements\<close>

text \<open>All records of all reports, in the order in which the aggregator visits them.\<close>

definition all_records :: "report list \<Rightarrow> dmarc_record list" where
  "all_records reports = concat (map records reports)"

text \<open>The condition of the code for a compliant record: both verdicts are \<open>pass\<close>.\<close>

definition both_pass :: "dmarc_record \<Rightarrow> bool" where
  "both_pass r = (dkim r = Some ''pass'' \<and> spf r = Some ''pass'')"

text \<open>One turn of the loop over the records, for a day that formatted.\<close>

definition step :: "string \<Rightarrow> dmarc_record \<Rightarrow> acc \<Rightarrow> acc" where
  "step d r a = count_day d r (count_record r a)"


text \<open>Every record with the day of its report, \<open>None\<close> where the date does not format.\<close>

definition dated_records :: "'f env \<Rightarrow> report list \<Rightarrow> (string option \<times> dmarc_record) list" where
  "dated_records env reports =
     concat (map (\<lambda>rep. map (\<lambda>r. (fromtimestamp_ymd env (date_begin rep), r)) (records rep))
               reports)"


text \<open>
  The rate of \<open>p\<close> among \<open>c\<close> as the specification words it: the rounded percentage when
  \<open>c\<close> is positive, and the integer \<open>0\<close> otherwise.
\<close>

definition guarded_rate :: "'f env \<Rightarrow> int \<Rightarrow> int \<Rightarrow> 'f num \<Rightarrow> bool" where
  "guarded_rate env p c v =
     (if c > 0 then map_option FloatV (round_pct env p c) = Some v else v = IntV 0)"


text \<open>A report whose only record counts no message.\<close>

definition zero_report :: report where
  "zero_report =
     \<lparr>org_name = Some ''Test Provider'', report_id = Some ''test-002'',
      domain = Some ''example.com'', policy = Some ''none'',
      date_begin = 1000, date_end = 2000,
      records =
        [\<lparr>source_ip = Some ''10.0.0.3'', count = 0, disposition = Some ''none'',
          dkim = Some ''pass'', spf = Some ''pass'', header_from = Some ''example.com''\<rparr>]\<rparr>"


text \<open>The position at which a value first occurs in a list.\<close>

definition first_seen :: "'a list \<Rightarrow> 'a \<Rightarrow> nat" where
  "first_seen xs x = length (takeWhile (\<lambda>y. y \<noteq> x) xs)"

text \<open>
  The order of \<open>top_sources\<close> in the words of the specification: a larger count comes
  first, and of two sources of equal count the one that was encountered first.
\<close>

definition before_in_top :: "string option list \<Rightarrow> 'f ip_info \<Rightarrow> 'f ip_info \<Rightarrow> bool" where
  "before_in_top ips x y =
     (info_count x > info_count y \<or>
      (info_count x = info_count y \<and> first_seen ips (info_ip x) < first_seen ips (info_ip y)))"


text \<open>A report in which two sources have the same count.\<close>

definition tie_report :: report where
  "tie_report =
     \<lparr>org_name = Some ''Test Provider'', report_id = Some ''test-003'',
      domain = Some ''example.com'', policy = Some ''none'',
      date_begin = 1000, date_end = 2000,
      records =
        [\<lparr>source_ip = Some ''10.0.0.1'', count = 5, disposition = Some ''none'',
          dkim = Some ''pass'', spf = Some ''pass'', header_from = Some ''example.com''\<rparr>,
         \<lparr>source_ip = Some ''10.0.0.2'', count = 7, disposition = Some ''none'',
          dkim = Some ''pass'', spf = Some ''pass'', header_from = Some ''example.com''\<rparr>,
         \<lparr>source_ip = Some ''10.0.0.3'', count = 5, disposition = Some ''none'',
          dkim = Some ''pass'', spf = Some ''pass'', header_from = Some ''example.com''\<rparr>]\<rparr>"







text \<open>Sample documents: the report of the test of the repository, and damaged ones.\<close>

definition leaf :: "string \<Rightarrow> string \<Rightarrow> xml" where
  "leaf t s = Elem t (Some s) []"

definition node :: "string \<Rightarrow> xml list \<Rightarrow> xml" where
  "node t cs = Elem t None cs"


definition sample_metadata :: xml where
  "sample_metadata =
     node ''report_metadata''
       [leaf ''org_name'' ''Test Org'', leaf ''email'' ''test@example.com'',
        leaf ''report_id'' ''test-123'',
        node ''date_range'' [leaf ''begin'' ''1000'', leaf ''end'' ''2000'']]"

definition sample_policy :: xml where
  "sample_policy =
     node ''policy_published'' [leaf ''domain'' ''example.com'', leaf ''p'' ''none'']"

definition sample_record :: "string \<Rightarrow> string \<Rightarrow> xml" where
  "sample_record ip n =
     node ''record''
       [node ''row''
          [leaf ''source_ip'' ip, leaf ''count'' n,
           node ''policy_evaluated''
             [leaf ''disposition'' ''none'', leaf ''dkim'' ''pass'', leaf ''spf'' ''pass'']],
        node ''identifiers'' [leaf ''header_from'' ''example.com'']]"

definition sample_doc :: xml where
  "sample_doc =
     node ''feedback'' [sample_metadata, sample_policy, sample_record ''192.168.1.1'' ''10'']"

text \<open>A document without \<open>report_metadata\<close>.\<close>

definition no_metadata_doc :: xml where
  "no_metadata_doc =
     node ''feedback'' [sample_policy, sample_record ''192.168.1.1'' ''10'']"








text \<open>
  A path names a readable archive of one of the three kinds, with these entries.  A
  name in \<open>.tar.gz\<close> reaches the TAR branch through the GZ branch of the unwrapper, which
  first writes the decompressed archive below the directory.
\<close>

definition archive_entries :: "fs \<Rightarrow> string \<Rightarrow> (string \<times> content) list option" where
  "archive_entries fs p =
     (let name = basename p in
      if endswith name ''.zip'' then
        (case map_of fs p of Some (ZipArchive es) \<Rightarrow> Some es | _ \<Rightarrow> None)
      else if endswith name ''.tar.gz'' then
        (case map_of fs p of Some (GzipFile (TarArchive es)) \<Rightarrow> Some es | _ \<Rightarrow> None)
      else if endswith name ''.gz'' then None
      else if endswith name ''.tar'' then
        (case map_of fs p of
           Some (TarArchive es) \<Rightarrow> Some es
         | Some (GzipFile (TarArchive es)) \<Rightarrow> Some es
         | _ \<Rightarrow> None)
      else None)"

definition unpacked :: "fs \<Rightarrow> string \<Rightarrow> string \<Rightarrow> (string \<times> content) list \<Rightarrow> fs" where
  "unpacked fs p dir es =
     (if endswith (basename p) ''.gz'' \<and> \<not> endswith (basename p) ''.zip''
      then extractall
             (fs_write fs (join dir (take (length (basename p) - 3) (basename p)))
                (TarArchive es)) dir es
      else extractall fs dir es)"

text \<open>A session directory with two uploaded ZIP archives of one report each.\<close>

definition two_zips :: fs where
  "two_zips =
     [(''/tmp/s/a.zip'', ZipArchive [(''a.xml'', XmlDoc sample_doc)]),
      (''/tmp/s/b.zip'', ZipArchive [(''b.xml'', XmlDoc sample_doc)])]"



section \<open>Properties of the aggregator\<close>

subsection \<open>The loops as folds\<close>

lemma step_fields:
  "total_messages (step d r a) = total_messages a + count r"
  "dkim_pass (step d r a) = dkim_pass a + (if is_pass (dkim r) then count r else 0)"
  "dkim_fail (step d r a) = dkim_fail a + (if is_pass (dkim r) then 0 else count r)"
  "spf_pass (step d r a) = spf_pass a + (if is_pass (spf r) then count r else 0)"
  "spf_fail (step d r a) = spf_fail a + (if is_pass (spf r) then 0 else count r)"
  "dmarc_pass (step d r a) = dmarc_pass a + (if both_pass r then count r else 0)"
  "dmarc_fail (step d r a) = dmarc_fail a + (if both_pass r then 0 else count r)"
  "ip_data (step d r a) = dd_update (ip_step r) ip_default (source_ip r) (ip_data a)"
  "daily_stats (step d r a) = dd_update (day_step r) day_default d (daily_stats a)"
  "dispositions (step d r a) = dd_update (\<lambda>n. n + count r) 0 (disposition r) (dispositions a)"
  "source_orgs (step d r a) = source_orgs a"
  "domains (step d r a) = domains a"
  "earliest (step d r a) = earliest a"
  "latest (step d r a) = latest a"
  by (simp_all add: step_def count_day_def count_record_def Let_def both_pass_def is_pass_def)

lemma header_fields:
  "total_messages (report_header rep a) = total_messages a"
  "dkim_pass (report_header rep a) = dkim_pass a"
  "dkim_fail (report_header rep a) = dkim_fail a"
  "spf_pass (report_header rep a) = spf_pass a"
  "spf_fail (report_header rep a) = spf_fail a"
  "dmarc_pass (report_header rep a) = dmarc_pass a"
  "dmarc_fail (report_header rep a) = dmarc_fail a"
  "ip_data (report_header rep a) = ip_data a"
  "daily_stats (report_header rep a) = daily_stats a"
  "dispositions (report_header rep a) = dispositions a"
  by (simp_all add: report_header_def Let_def split: option.splits)

lemma process_records_fold:
  "process_records env rep rs a = Inr a' \<Longrightarrow>
     a' = fold (step (the (fromtimestamp_ymd env (date_begin rep)))) rs a"
proof (induction rs arbitrary: a)
  case Nil
  then show ?case by simp
next
  case (Cons r rs)
  then show ?case
    by (auto simp: Let_def step_def split: option.splits)
qed

lemma fold_step_totals:
  "total_messages (fold (step d) rs a) = total_messages a + (\<Sum>r\<leftarrow>rs. count r)"
  "dkim_pass (fold (step d) rs a) =
     dkim_pass a + (\<Sum>r\<leftarrow>rs. if is_pass (dkim r) then count r else 0)"
  "dkim_fail (fold (step d) rs a) =
     dkim_fail a + (\<Sum>r\<leftarrow>rs. if is_pass (dkim r) then 0 else count r)"
  "spf_pass (fold (step d) rs a) =
     spf_pass a + (\<Sum>r\<leftarrow>rs. if is_pass (spf r) then count r else 0)"
  "spf_fail (fold (step d) rs a) =
     spf_fail a + (\<Sum>r\<leftarrow>rs. if is_pass (spf r) then 0 else count r)"
  "dmarc_pass (fold (step d) rs a) =
     dmarc_pass a + (\<Sum>r\<leftarrow>rs. if both_pass r then count r else 0)"
  "dmarc_fail (fold (step d) rs a) =
     dmarc_fail a + (\<Sum>r\<leftarrow>rs. if both_pass r then 0 else count r)"
  by (induction rs arbitrary: a; simp add: step_fields)+

lemma fold_step_ip_data:
  "ip_data (fold (step d) rs a) =
     fold (\<lambda>r. dd_update (ip_step r) ip_default (source_ip r)) rs (ip_data a)"
  by (induction rs arbitrary: a) (simp_all add: step_fields)

lemma fold_step_daily_stats:
  "daily_stats (fold (step d) rs a) =
     fold (\<lambda>r. dd_update (day_step r) day_default d) rs (daily_stats a)"
  by (induction rs arbitrary: a) (simp_all add: step_fields)

lemma process_reports_Cons:
  assumes "process_reports env (rep # reps) a = Inr a'"
  obtains a1 where
    "a1 = fold (step (the (fromtimestamp_ymd env (date_begin rep)))) (records rep)
            (report_header rep a)"
    and "process_records env rep (records rep) (report_header rep a) = Inr a1"
    and "process_reports env reps a1 = Inr a'"
proof -
  from assms obtain a1 where
    a1: "process_records env rep (records rep) (report_header rep a) = Inr a1"
    and rest: "process_reports env reps a1 = Inr a'"
    by (auto split: sum.splits)
  from a1 have "a1 = fold (step (the (fromtimestamp_ymd env (date_begin rep)))) (records rep)
                  (report_header rep a)"
    by (rule process_records_fold)
  with a1 rest that show thesis by blast
qed

lemma process_reports_totals:
  "process_reports env reports a = Inr a' \<Longrightarrow>
     total_messages a' = total_messages a + (\<Sum>r\<leftarrow>all_records reports. count r) \<and>
     dkim_pass a' =
       dkim_pass a + (\<Sum>r\<leftarrow>all_records reports. if is_pass (dkim r) then count r else 0) \<and>
     dkim_fail a' =
       dkim_fail a + (\<Sum>r\<leftarrow>all_records reports. if is_pass (dkim r) then 0 else count r) \<and>
     spf_pass a' =
       spf_pass a + (\<Sum>r\<leftarrow>all_records reports. if is_pass (spf r) then count r else 0) \<and>
     spf_fail a' =
       spf_fail a + (\<Sum>r\<leftarrow>all_records reports. if is_pass (spf r) then 0 else count r) \<and>
     dmarc_pass a' =
       dmarc_pass a + (\<Sum>r\<leftarrow>all_records reports. if both_pass r then count r else 0) \<and>
     dmarc_fail a' =
       dmarc_fail a + (\<Sum>r\<leftarrow>all_records reports. if both_pass r then 0 else count r)"
proof (induction reports arbitrary: a)
  case Nil
  then show ?case by (simp add: all_records_def)
next
  case (Cons rep reps)
  from Cons.prems obtain a1 where
    f: "a1 = fold (step (the (fromtimestamp_ymd env (date_begin rep)))) (records rep)
                  (report_header rep a)"
    and rest: "process_reports env reps a1 = Inr a'"
    by (rule process_reports_Cons)
  show ?case
    using Cons.IH [OF rest]
    by (simp add: f fold_step_totals header_fields all_records_def)
qed

lemma sum_split_if:
  "(\<Sum>r\<leftarrow>rs. if P r then f r else 0) + (\<Sum>r\<leftarrow>rs. if P r then 0 else f r) =
     (\<Sum>r\<leftarrow>rs. (f r :: int))"
  by (induction rs) auto

lemma acc_init_fields:
  "total_messages acc_init = 0" "dkim_pass acc_init = 0" "dkim_fail acc_init = 0"
  "spf_pass acc_init = 0" "spf_fail acc_init = 0" "dmarc_pass acc_init = 0"
  "dmarc_fail acc_init = 0" "ip_data acc_init = []" "daily_stats acc_init = []"
  by (simp_all add: acc_init_def)

lemma bind_exn_Inr:
  "bind_exn m f = Inr y \<Longrightarrow> \<exists>x. m = Inr x \<and> f x = Inr y"
  by (cases m) (simp_all add: bind_exn_def)

lemma generate_analytics_Inr:
  assumes "generate_analytics env reports = Inr res"
  obtains a where "process_reports env reports acc_init = Inr a"
    and "finish env (length reports) a = Inr res"
  using assms by (auto simp: generate_analytics_def split: sum.splits)

lemma finish_fields:
  "finish env n a = Inr res \<Longrightarrow>
     summary_total_messages res = total_messages a \<and>
     pass (auth_dkim res) = dkim_pass a \<and> fail (auth_dkim res) = dkim_fail a \<and>
     pass (auth_spf res) = spf_pass a \<and> fail (auth_spf res) = spf_fail a"
  unfolding finish_def Let_def
  by (auto dest!: bind_exn_Inr)

lemma sample_returns:
  "generate_analytics sample_env [sample_report] =
     Inr (projr (generate_analytics sample_env [sample_report]))"
proof -
  have "\<not> isl (generate_analytics sample_env [sample_report])"
    by code_simp
  then show ?thesis by simp
qed

lemma sample_top_sources:
  "map info_count (top_sources (projr (generate_analytics sample_env [sample_report]))) =
     [100, 50]"
  "map info_dmarc_pass (top_sources (projr (generate_analytics sample_env [sample_report]))) =
     [100, 0]"
  by code_simp+

lemma sample_timeline:
  "map tl_dmarc_pass (timeline (projr (generate_analytics sample_env [sample_report]))) = [100]"
  by code_simp

subsection \<open>The totals\<close>

text \<open>
  Claim C1.  Whenever the aggregator returns a result, the counters of its loop satisfy
  \<open>dkim_pass + dkim_fail = total_messages\<close>, \<open>spf_pass + spf_fail = total_messages\<close> and
  \<open>dmarc_pass + dmarc_fail = total_messages\<close>, where \<open>total_messages\<close> is the sum of the
  \<open>count\<close> field over all records of all reports; the DKIM and SPF counts and the total
  of the result are these counters.
\<close>

theorem totals_invariant:
  assumes "generate_analytics env reports = Inr res"
  shows "\<exists>a. process_reports env reports acc_init = Inr a \<and>
           dkim_pass a + dkim_fail a = total_messages a \<and>
           spf_pass a + spf_fail a = total_messages a \<and>
           dmarc_pass a + dmarc_fail a = total_messages a \<and>
           total_messages a = (\<Sum>r\<leftarrow>concat (map records reports). count r) \<and>
           summary_total_messages res = total_messages a \<and>
           pass (auth_dkim res) + fail (auth_dkim res) = summary_total_messages res \<and>
           pass (auth_spf res) + fail (auth_spf res) = summary_total_messages res"
proof -
  from assms obtain a where a: "process_reports env reports acc_init = Inr a"
    and fin: "finish env (length reports) a = Inr res"
    by (rule generate_analytics_Inr)
  note t = process_reports_totals [OF a]
  note s = sum_split_if [of _ count "all_records reports"]
  have 1: "dkim_pass a + dkim_fail a = total_messages a"
    using t s [of "\<lambda>r. is_pass (dkim r)"] by (simp add: acc_init_fields)
  have 2: "spf_pass a + spf_fail a = total_messages a"
    using t s [of "\<lambda>r. is_pass (spf r)"] by (simp add: acc_init_fields)
  have 3: "dmarc_pass a + dmarc_fail a = total_messages a"
    using t s [of both_pass] by (simp add: acc_init_fields)
  have 4: "total_messages a = (\<Sum>r\<leftarrow>concat (map records reports). count r)"
    using t by (simp add: acc_init_fields all_records_def)
  show ?thesis
    using a 1 2 3 4 finish_fields [OF fin] by auto
qed

theorem totals_invariant_witness:
  "\<exists>a. process_reports sample_env [sample_report] acc_init = Inr a \<and>
       dkim_pass a + dkim_fail a = total_messages a \<and>
       spf_pass a + spf_fail a = total_messages a \<and>
       dmarc_pass a + dmarc_fail a = total_messages a \<and>
       total_messages a = 150"
  using totals_invariant [OF sample_returns] by (auto simp: sample_report_def)


subsection \<open>The dictionaries\<close>

lemma dd_get_update:
  "dd_get d k (dd_update f d k' kvs) = (if k = k' then f (dd_get d k kvs) else dd_get d k kvs)"
  by (induction kvs) auto

lemma keys_dd_update:
  "map fst (dd_update f d k kvs) =
     (if k \<in> set (map fst kvs) then map fst kvs else map fst kvs @ [k])"
  by (induction kvs) force+

lemma distinct_dd_update:
  "distinct (map fst kvs) \<Longrightarrow> distinct (map fst (dd_update f d k kvs))"
  by (simp add: keys_dd_update)

lemma dd_get_fold:
  "dd_get d k (fold (\<lambda>x. dd_update (g x) d (key x)) xs kvs) =
     fold (\<lambda>x s. if key x = k then g x s else s) xs (dd_get d k kvs)"
  by (induction xs arbitrary: kvs) (simp_all add: dd_get_update)

lemma distinct_dd_fold:
  "distinct (map fst kvs) \<Longrightarrow>
     distinct (map fst (fold (\<lambda>x. dd_update (g x) d (key x)) xs kvs))"
  by (induction xs arbitrary: kvs) (simp_all add: distinct_dd_update)

lemma dd_get_mem:
  "distinct (map fst kvs) \<Longrightarrow> (k, v) \<in> set kvs \<Longrightarrow> dd_get d k kvs = v"
  by (induction kvs) (auto simp: rev_image_eqI)

lemma map_exn_all2:
  "map_exn f xs = Inr ys \<Longrightarrow> list_all2 (\<lambda>x y. f x = Inr y) xs ys"
proof (induction xs arbitrary: ys)
  case Nil
  then show ?case by simp
next
  case (Cons x xs)
  then show ?case by (auto split: sum.splits)
qed

lemma map_exn_mem:
  assumes "map_exn f xs = Inr ys" and "y \<in> set ys"
  obtains x where "x \<in> set xs" and "f x = Inr y"
proof -
  from assms(1) have "list_all2 (\<lambda>x y. f x = Inr y) xs ys" by (rule map_exn_all2)
  then have len: "length xs = length ys" and nth: "\<And>i. i < length ys \<Longrightarrow> f (xs ! i) = Inr (ys ! i)"
    by (simp_all add: list_all2_conv_all_nth)
  from assms(2) obtain i where i: "i < length ys" "ys ! i = y"
    by (auto simp: in_set_conv_nth)
  have "xs ! i \<in> set xs" using i len by simp
  moreover have "f (xs ! i) = Inr y" using nth [OF i(1)] i(2) by simp
  ultimately show thesis by (rule that)
qed

subsection \<open>The entries of the sources and of the days\<close>

lemma process_reports_ip_data:
  "process_reports env reports a = Inr a' \<Longrightarrow>
     ip_data a' =
       fold (\<lambda>r. dd_update (ip_step r) ip_default (source_ip r)) (all_records reports)
         (ip_data a)"
proof (induction reports arbitrary: a)
  case Nil
  then show ?case by (simp add: all_records_def)
next
  case (Cons rep reps)
  from Cons.prems obtain a1 where
    f: "a1 = fold (step (the (fromtimestamp_ymd env (date_begin rep)))) (records rep)
                  (report_header rep a)"
    and rest: "process_reports env reps a1 = Inr a'"
    by (rule process_reports_Cons)
  show ?case
    using Cons.IH [OF rest]
    by (simp add: f fold_step_ip_data header_fields all_records_def)
qed

lemma process_records_dated:
  "process_records env rep rs a = Inr a' \<Longrightarrow> rs \<noteq> [] \<Longrightarrow>
     fromtimestamp_ymd env (date_begin rep) \<noteq> None"
  by (cases rs) (auto simp: Let_def split: option.splits)

lemma fold_map_pair:
  "fold (\<lambda>x. h (fst x) (snd x)) (map (\<lambda>r. (c, r)) rs) s = fold (h c) rs s"
  by (induction rs arbitrary: s) simp_all

lemma process_reports_daily_stats:
  "process_reports env reports a = Inr a' \<Longrightarrow>
     (\<forall>x \<in> set (dated_records env reports). fst x \<noteq> None) \<and>
     daily_stats a' =
       fold (\<lambda>x. dd_update (day_step (snd x)) day_default (the (fst x)))
         (dated_records env reports) (daily_stats a)"
proof (induction reports arbitrary: a)
  case Nil
  then show ?case by (simp add: dated_records_def)
next
  case (Cons rep reps)
  from Cons.prems obtain a1 where
    f: "a1 = fold (step (the (fromtimestamp_ymd env (date_begin rep)))) (records rep)
                  (report_header rep a)"
    and recs: "process_records env rep (records rep) (report_header rep a) = Inr a1"
    and rest: "process_reports env reps a1 = Inr a'"
    by (rule process_reports_Cons)
  have d: "fromtimestamp_ymd env (date_begin rep) \<noteq> None" if "r \<in> set (records rep)" for r
  proof -
    from that have "records rep \<noteq> []" by auto
    with recs show ?thesis by (rule process_records_dated)
  qed
  have dr: "dated_records env (rep # reps) =
      map (\<lambda>r. (fromtimestamp_ymd env (date_begin rep), r)) (records rep) @
      dated_records env reps"
    by (simp add: dated_records_def)
  have 1: "\<forall>x \<in> set (dated_records env (rep # reps)). fst x \<noteq> None"
    using Cons.IH [OF rest] d by (auto simp: dr)
  have 2: "daily_stats a1 =
      fold (\<lambda>x. dd_update (day_step (snd x)) day_default (the (fst x)))
        (map (\<lambda>r. (fromtimestamp_ymd env (date_begin rep), r)) (records rep)) (daily_stats a)"
    using fold_map_pair [of "\<lambda>c r. dd_update (day_step r) day_default (the c)"
        "fromtimestamp_ymd env (date_begin rep)" "records rep" "daily_stats a"]
    by (simp add: f fold_step_daily_stats header_fields)
  show ?case
    using Cons.IH [OF rest] 1 2 by (simp add: dr)
qed

lemma fold_ip_dmarc_pass:
  "ip_dmarc_pass (fold (\<lambda>r s. if source_ip r = k then ip_step r s else s) rs s) =
     ip_dmarc_pass s + (\<Sum>r\<leftarrow>rs. if source_ip r = k \<and> both_pass r then count r else 0)"
  by (induction rs arbitrary: s) (auto simp: ip_step_def both_pass_def is_pass_def)

lemma fold_ip_count:
  "ip_count (fold (\<lambda>r s. if source_ip r = k then ip_step r s else s) rs s) =
     ip_count s + (\<Sum>r\<leftarrow>rs. if source_ip r = k then count r else 0)"
  by (induction rs arbitrary: s) (auto simp: ip_step_def)

lemma fold_day_dmarc_pass:
  "day_dmarc_pass (fold (\<lambda>x s. if the (fst x) = k then day_step (snd x) s else s) xs s) =
     day_dmarc_pass s +
     (\<Sum>x\<leftarrow>xs. if the (fst x) = k \<and> both_pass (snd x) then count (snd x) else 0)"
  by (induction xs arbitrary: s) (auto simp: day_step_def both_pass_def is_pass_def)

lemma fold_day_total:
  "day_total (fold (\<lambda>x s. if the (fst x) = k then day_step (snd x) s else s) xs s) =
     day_total s + (\<Sum>x\<leftarrow>xs. if the (fst x) = k then count (snd x) else 0)"
  by (induction xs arbitrary: s) (auto simp: day_step_def)

lemma sum_list_cong_set:
  "(\<And>x. x \<in> set xs \<Longrightarrow> f x = g x) \<Longrightarrow> (\<Sum>x\<leftarrow>xs. f x) = (\<Sum>x\<leftarrow>xs. (g x :: int))"
  by (induction xs) simp_all

text \<open>What the loop leaves in the entry of a source and in the entry of a day.\<close>

lemma ip_entry:
  assumes "process_reports env reports acc_init = Inr a"
  shows "distinct (map fst (ip_data a))"
    and "ip_dmarc_pass (dd_get ip_default k (ip_data a)) =
           (\<Sum>r\<leftarrow>all_records reports. if source_ip r = k \<and> both_pass r then count r else 0)"
    and "ip_count (dd_get ip_default k (ip_data a)) =
           (\<Sum>r\<leftarrow>all_records reports. if source_ip r = k then count r else 0)"
proof -
  note f = process_reports_ip_data [OF assms, simplified acc_init_fields]
  show "distinct (map fst (ip_data a))"
    unfolding f by (rule distinct_dd_fold) simp
  show "ip_dmarc_pass (dd_get ip_default k (ip_data a)) =
           (\<Sum>r\<leftarrow>all_records reports. if source_ip r = k \<and> both_pass r then count r else 0)"
    unfolding f dd_get_fold fold_ip_dmarc_pass by (simp add: ip_default_def)
  show "ip_count (dd_get ip_default k (ip_data a)) =
           (\<Sum>r\<leftarrow>all_records reports. if source_ip r = k then count r else 0)"
    unfolding f dd_get_fold fold_ip_count by (simp add: ip_default_def)
qed

lemma day_entry:
  assumes "process_reports env reports acc_init = Inr a"
  shows "distinct (map fst (daily_stats a))"
    and "day_dmarc_pass (dd_get day_default k (daily_stats a)) =
           (\<Sum>x\<leftarrow>dated_records env reports.
              if fst x = Some k \<and> both_pass (snd x) then count (snd x) else 0)"
    and "day_total (dd_get day_default k (daily_stats a)) =
           (\<Sum>x\<leftarrow>dated_records env reports. if fst x = Some k then count (snd x) else 0)"
proof -
  from process_reports_daily_stats [OF assms]
  have some: "\<And>x. x \<in> set (dated_records env reports) \<Longrightarrow> fst x \<noteq> None"
    and f: "daily_stats a =
       fold (\<lambda>x. dd_update (day_step (snd x)) day_default (the (fst x)))
         (dated_records env reports) []"
    by (simp_all add: acc_init_fields)
  have eq: "(the (fst x) = k) = (fst x = Some k)" if "x \<in> set (dated_records env reports)" for x
    using some [OF that] by auto
  show "distinct (map fst (daily_stats a))"
    unfolding f by (rule distinct_dd_fold) simp
  show "day_dmarc_pass (dd_get day_default k (daily_stats a)) =
           (\<Sum>x\<leftarrow>dated_records env reports.
              if fst x = Some k \<and> both_pass (snd x) then count (snd x) else 0)"
    unfolding f dd_get_fold fold_day_dmarc_pass
    by (simp add: day_default_def eq cong: sum_list_cong_set)
  show "day_total (dd_get day_default k (daily_stats a)) =
           (\<Sum>x\<leftarrow>dated_records env reports. if fst x = Some k then count (snd x) else 0)"
    unfolding f dd_get_fold fold_day_total
    by (simp add: day_default_def eq cong: sum_list_cong_set)
qed


subsection \<open>The result of the aggregator\<close>

lemma make_ip_info_Inr:
  assumes "make_ip_info env (k, s) = Inr e"
  shows "info_ip e = k" and "info_count e = ip_count s"
    and "info_dmarc_pass e = ip_dmarc_pass s"
    and "rate env (ip_dmarc_pass s) (ip_count s) = Inr (info_compliance_rate e)"
  using assms by (auto simp: make_ip_info_def split: sum.splits)

lemma make_timeline_entry_Inr:
  assumes "make_timeline_entry env ds d = Inr t"
  shows "tl_date t = d" and "tl_total t = day_total (dd_get day_default d ds)"
    and "tl_dmarc_pass t = day_dmarc_pass (dd_get day_default d ds)"
    and "rate env (day_dmarc_pass (dd_get day_default d ds))
           (day_total (dd_get day_default d ds)) = Inr (tl_compliance_rate t)"
  using assms by (auto simp: make_timeline_entry_def Let_def split: sum.splits)

lemma finish_Inr:
  assumes "finish env n a = Inr res"
  obtains ip_list0 where
    "map_exn (make_ip_info env) (ip_data a) = Inr ip_list0"
    and "map_exn (make_timeline_entry env (daily_stats a)) (sort (map fst (daily_stats a))) =
           Inr (timeline res)"
    and "rate env (dkim_pass a) (total_messages a) = Inr (pass_rate (auth_dkim res))"
    and "rate env (spf_pass a) (total_messages a) = Inr (pass_rate (auth_spf res))"
    and "rate env (dmarc_pass a) (total_messages a) = Inr (auth_dmarc_compliance res)"
    and "top_sources res = take 20 (sort_by_count ip_list0)"
    and "threats res =
           identify_threats env (sort_by_count ip_list0) (auth_dmarc_compliance res)"
  using assms unfolding finish_def Let_def
  by (auto dest!: bind_exn_Inr)

lemma set_sort_by_count: "set (sort_by_count xs) = set xs"
  by (simp add: sort_by_count_def)

lemma source_entry:
  assumes a: "process_reports env reports acc_init = Inr a"
    and l: "map_exn (make_ip_info env) (ip_data a) = Inr ip_list0"
    and e: "e \<in> set ip_list0"
  shows "info_dmarc_pass e =
           (\<Sum>r\<leftarrow>all_records reports.
              if source_ip r = info_ip e \<and> both_pass r then count r else 0)"
    and "info_count e =
           (\<Sum>r\<leftarrow>all_records reports. if source_ip r = info_ip e then count r else 0)"
    and "rate env (info_dmarc_pass e) (info_count e) = Inr (info_compliance_rate e)"
proof -
  from l e obtain kv where kv: "kv \<in> set (ip_data a)" and mk: "make_ip_info env kv = Inr e"
    by (rule map_exn_mem)
  obtain k s where ks: "kv = (k, s)" by (cases kv)
  note m = make_ip_info_Inr [OF mk [unfolded ks]]
  have g: "dd_get ip_default k (ip_data a) = s"
    using ip_entry(1) [OF a] kv unfolding ks by (rule dd_get_mem)
  show "info_dmarc_pass e =
           (\<Sum>r\<leftarrow>all_records reports.
              if source_ip r = info_ip e \<and> both_pass r then count r else 0)"
    using ip_entry(2) [OF a, of k] by (simp add: g m)
  show "info_count e =
           (\<Sum>r\<leftarrow>all_records reports. if source_ip r = info_ip e then count r else 0)"
    using ip_entry(3) [OF a, of k] by (simp add: g m)
  show "rate env (info_dmarc_pass e) (info_count e) = Inr (info_compliance_rate e)"
    using m by simp
qed

lemma timeline_entry:
  assumes a: "process_reports env reports acc_init = Inr a"
    and l: "map_exn (make_timeline_entry env (daily_stats a)) ds = Inr tls"
    and t: "t \<in> set tls"
  shows "tl_dmarc_pass t =
           (\<Sum>x\<leftarrow>dated_records env reports.
              if fst x = Some (tl_date t) \<and> both_pass (snd x) then count (snd x) else 0)"
    and "tl_total t =
           (\<Sum>x\<leftarrow>dated_records env reports.
              if fst x = Some (tl_date t) then count (snd x) else 0)"
    and "rate env (tl_dmarc_pass t) (tl_total t) = Inr (tl_compliance_rate t)"
proof -
  from l t obtain d where mk: "make_timeline_entry env (daily_stats a) d = Inr t"
    by (rule map_exn_mem)
  note m = make_timeline_entry_Inr [OF mk]
  show "tl_dmarc_pass t =
           (\<Sum>x\<leftarrow>dated_records env reports.
              if fst x = Some (tl_date t) \<and> both_pass (snd x) then count (snd x) else 0)"
    using day_entry(2) [OF a, of d] by (simp add: m)
  show "tl_total t =
           (\<Sum>x\<leftarrow>dated_records env reports.
              if fst x = Some (tl_date t) then count (snd x) else 0)"
    using day_entry(3) [OF a, of d] by (simp add: m)
  show "rate env (tl_dmarc_pass t) (tl_total t) = Inr (tl_compliance_rate t)"
    using m by simp
qed

subsection \<open>The compliance rule\<close>

text \<open>
  Claim C2.  The count of a record is added to \<open>dmarc_pass\<close> if and only if its \<open>dkim\<close>
  field and its \<open>spf\<close> field are both \<open>pass\<close>, and to \<open>dmarc_fail\<close> in every other case:
  the two counters are the sums of the counts over the records of the one and of the
  other kind.  The \<open>dmarc_pass\<close> tally of every source in \<open>top_sources\<close> and of every day
  in \<open>timeline\<close> is the sum over the records of that source, or of that day, with both
  fields \<open>pass\<close>.
\<close>

theorem dmarc_pass_rule:
  assumes "generate_analytics env reports = Inr res"
  shows "\<exists>a. process_reports env reports acc_init = Inr a \<and>
           dmarc_pass a =
             (\<Sum>r\<leftarrow>all_records reports.
                if dkim r = Some ''pass'' \<and> spf r = Some ''pass'' then count r else 0) \<and>
           dmarc_fail a =
             (\<Sum>r\<leftarrow>all_records reports.
                if dkim r = Some ''pass'' \<and> spf r = Some ''pass'' then 0 else count r) \<and>
           (\<forall>e \<in> set (top_sources res).
              info_dmarc_pass e =
                (\<Sum>r\<leftarrow>all_records reports.
                   if source_ip r = info_ip e \<and> dkim r = Some ''pass'' \<and> spf r = Some ''pass''
                   then count r else 0)) \<and>
           (\<forall>t \<in> set (timeline res).
              tl_dmarc_pass t =
                (\<Sum>x\<leftarrow>dated_records env reports.
                   if fst x = Some (tl_date t) \<and> dkim (snd x) = Some ''pass'' \<and>
                      spf (snd x) = Some ''pass''
                   then count (snd x) else 0))"
proof -
  from assms obtain a where a: "process_reports env reports acc_init = Inr a"
    and fin: "finish env (length reports) a = Inr res"
    by (rule generate_analytics_Inr)
  from fin obtain ip_list0 where
    l: "map_exn (make_ip_info env) (ip_data a) = Inr ip_list0"
    and tl: "map_exn (make_timeline_entry env (daily_stats a)) (sort (map fst (daily_stats a))) =
           Inr (timeline res)"
    and top: "top_sources res = take 20 (sort_by_count ip_list0)"
    by (rule finish_Inr)
  note t = process_reports_totals [OF a]
  have 1: "dmarc_pass a =
      (\<Sum>r\<leftarrow>all_records reports.
         if dkim r = Some ''pass'' \<and> spf r = Some ''pass'' then count r else 0)"
    using t by (simp add: acc_init_fields both_pass_def)
  have 2: "dmarc_fail a =
      (\<Sum>r\<leftarrow>all_records reports.
         if dkim r = Some ''pass'' \<and> spf r = Some ''pass'' then 0 else count r)"
    using t by (simp add: acc_init_fields both_pass_def)
  have 3: "info_dmarc_pass e =
      (\<Sum>r\<leftarrow>all_records reports.
         if source_ip r = info_ip e \<and> dkim r = Some ''pass'' \<and> spf r = Some ''pass''
         then count r else 0)" if "e \<in> set (top_sources res)" for e
  proof -
    from that have "e \<in> set ip_list0"
      unfolding top using set_sort_by_count [of ip_list0] by (auto dest: in_set_takeD)
    from source_entry(1) [OF a l this] show ?thesis by (simp add: both_pass_def)
  qed
  have 4: "tl_dmarc_pass t =
      (\<Sum>x\<leftarrow>dated_records env reports.
         if fst x = Some (tl_date t) \<and> dkim (snd x) = Some ''pass'' \<and>
            spf (snd x) = Some ''pass''
         then count (snd x) else 0)" if "t \<in> set (timeline res)" for t
    using timeline_entry(1) [OF a tl that] by (simp add: both_pass_def)
  from a 1 2 3 4 show ?thesis by blast
qed

theorem dmarc_pass_rule_witness:
  "(\<exists>a. process_reports sample_env [sample_report] acc_init = Inr a \<and>
        dmarc_pass a = 100 \<and> dmarc_fail a = 50) \<and>
   map info_dmarc_pass (top_sources (projr (generate_analytics sample_env [sample_report]))) =
     [100, 0] \<and>
   map tl_dmarc_pass (timeline (projr (generate_analytics sample_env [sample_report]))) = [100]"
proof -
  from dmarc_pass_rule [OF sample_returns]
  have "\<exists>a. process_reports sample_env [sample_report] acc_init = Inr a \<and>
        dmarc_pass a = 100 \<and> dmarc_fail a = 50"
    by (auto simp: all_records_def sample_report_def)
  with sample_top_sources(2) sample_timeline show ?thesis by simp
qed


subsection \<open>The guarded rates\<close>

lemma rate_Inr: "rate env p c = Inr v \<Longrightarrow> guarded_rate env p c v"
  by (auto simp: rate_def truediv_pct_def guarded_rate_def split: if_splits option.splits)

lemma rate_no_zero_division: "rate env p c \<noteq> Inl ZeroDivisionError"
  by (auto simp: rate_def truediv_pct_def split: option.splits)

lemma bind_exn_Inl:
  "bind_exn m f = Inl e \<Longrightarrow> m = Inl e \<or> (\<exists>x. m = Inr x \<and> f x = Inl e)"
  by (cases m) (simp_all add: bind_exn_def)

lemma map_exn_Inl: "map_exn f xs = Inl e \<Longrightarrow> \<exists>x \<in> set xs. f x = Inl e"
proof (induction xs)
  case Nil
  then show ?case by simp
next
  case (Cons x xs)
  then show ?case by (auto split: sum.splits)
qed

lemma process_records_Inl: "process_records env rep rs a = Inl e \<Longrightarrow> e = ValueError"
  by (induction rs arbitrary: a) (auto simp: Let_def split: option.splits)

lemma process_reports_Inl: "process_reports env reports a = Inl e \<Longrightarrow> e = ValueError"
  by (induction reports arbitrary: a) (auto split: sum.splits dest: process_records_Inl)

lemma make_ip_info_Inl: "make_ip_info env kv \<noteq> Inl ZeroDivisionError"
  using rate_no_zero_division [of env]
  by (auto simp: make_ip_info_def split: sum.splits prod.splits)

lemma make_timeline_entry_Inl: "make_timeline_entry env ds d \<noteq> Inl ZeroDivisionError"
  using rate_no_zero_division [of env]
  by (auto simp: make_timeline_entry_def Let_def split: sum.splits)

lemma date_or_none_Inl: "date_or_none env t \<noteq> Inl ZeroDivisionError"
  by (auto simp: date_or_none_def split: option.splits)

lemma finish_no_zero_division: "finish env n a \<noteq> Inl ZeroDivisionError"
proof
  assume "finish env n a = Inl ZeroDivisionError"
  then show False
    unfolding finish_def Let_def
    using rate_no_zero_division [of env] date_or_none_Inl [of env]
      make_ip_info_Inl [of env] make_timeline_entry_Inl [of env]
    by (auto dest!: bind_exn_Inl map_exn_Inl)
qed

lemma generate_analytics_no_zero_division:
  "generate_analytics env reports \<noteq> Inl ZeroDivisionError"
  using finish_no_zero_division [of env]
  by (auto simp: generate_analytics_def split: sum.splits dest: process_reports_Inl)

text \<open>
  Claim C4.  In every result of the aggregator, the \<open>compliance_rate\<close> of each source and
  of each day is the rounded percentage \<open>round(dmarc_pass / count * 100, 2)\<close> when the
  count is positive and the integer \<open>0\<close> otherwise, and so are the DKIM and SPF pass rates
  and the DMARC compliance over \<open>total_messages\<close>.  The aggregator never ends in a
  division by zero.
\<close>

theorem compliance_rate_guard:
  "generate_analytics env reports \<noteq> Inl ZeroDivisionError \<and>
   (\<forall>res. generate_analytics env reports = Inr res \<longrightarrow>
      (\<forall>e \<in> set (top_sources res).
         guarded_rate env (info_dmarc_pass e) (info_count e) (info_compliance_rate e)) \<and>
      (\<forall>t \<in> set (timeline res).
         guarded_rate env (tl_dmarc_pass t) (tl_total t) (tl_compliance_rate t)) \<and>
      guarded_rate env (pass (auth_dkim res)) (summary_total_messages res)
        (pass_rate (auth_dkim res)) \<and>
      guarded_rate env (pass (auth_spf res)) (summary_total_messages res)
        (pass_rate (auth_spf res)) \<and>
      (\<exists>a. process_reports env reports acc_init = Inr a \<and>
           guarded_rate env (dmarc_pass a) (total_messages a) (auth_dmarc_compliance res)))"
proof (intro conjI allI impI)
  show "generate_analytics env reports \<noteq> Inl ZeroDivisionError"
    by (rule generate_analytics_no_zero_division)
next
  fix res
  assume r: "generate_analytics env reports = Inr res"
  then obtain a where a: "process_reports env reports acc_init = Inr a"
    and fin: "finish env (length reports) a = Inr res"
    by (rule generate_analytics_Inr)
  from fin obtain ip_list0 where
    l: "map_exn (make_ip_info env) (ip_data a) = Inr ip_list0"
    and tl: "map_exn (make_timeline_entry env (daily_stats a)) (sort (map fst (daily_stats a))) =
           Inr (timeline res)"
    and dk: "rate env (dkim_pass a) (total_messages a) = Inr (pass_rate (auth_dkim res))"
    and sp: "rate env (spf_pass a) (total_messages a) = Inr (pass_rate (auth_spf res))"
    and dc: "rate env (dmarc_pass a) (total_messages a) = Inr (auth_dmarc_compliance res)"
    and top: "top_sources res = take 20 (sort_by_count ip_list0)"
    by (rule finish_Inr)
  note ff = finish_fields [OF fin]
  show "\<forall>e \<in> set (top_sources res).
         guarded_rate env (info_dmarc_pass e) (info_count e) (info_compliance_rate e)"
  proof
    fix e
    assume "e \<in> set (top_sources res)"
    then have "e \<in> set ip_list0"
      unfolding top using set_sort_by_count [of ip_list0] by (auto dest: in_set_takeD)
    from source_entry(3) [OF a l this] show
      "guarded_rate env (info_dmarc_pass e) (info_count e) (info_compliance_rate e)"
      by (rule rate_Inr)
  qed
  show "\<forall>t \<in> set (timeline res).
         guarded_rate env (tl_dmarc_pass t) (tl_total t) (tl_compliance_rate t)"
  proof
    fix t
    assume "t \<in> set (timeline res)"
    from timeline_entry(3) [OF a tl this] show
      "guarded_rate env (tl_dmarc_pass t) (tl_total t) (tl_compliance_rate t)"
      by (rule rate_Inr)
  qed
  show "guarded_rate env (pass (auth_dkim res)) (summary_total_messages res)
        (pass_rate (auth_dkim res))"
    using rate_Inr [OF dk] ff by simp
  show "guarded_rate env (pass (auth_spf res)) (summary_total_messages res)
        (pass_rate (auth_spf res))"
    using rate_Inr [OF sp] ff by simp
  show "\<exists>a. process_reports env reports acc_init = Inr a \<and>
           guarded_rate env (dmarc_pass a) (total_messages a) (auth_dmarc_compliance res)"
    using a rate_Inr [OF dc] by blast
qed


lemma zero_returns:
  "generate_analytics sample_env [zero_report] =
     Inr (projr (generate_analytics sample_env [zero_report]))"
proof -
  have "\<not> isl (generate_analytics sample_env [zero_report])"
    by code_simp
  then show ?thesis by simp
qed

lemma zero_top_sources:
  "map info_count (top_sources (projr (generate_analytics sample_env [zero_report]))) = [0]"
  by code_simp

lemma zero_timeline:
  "map tl_total (timeline (projr (generate_analytics sample_env [zero_report]))) = [0]"
  by code_simp

theorem compliance_rate_guard_witness:
  "generate_analytics sample_env [zero_report] \<noteq> Inl ZeroDivisionError \<and>
   map info_compliance_rate
     (top_sources (projr (generate_analytics sample_env [zero_report]))) = [IntV 0] \<and>
   map tl_compliance_rate
     (timeline (projr (generate_analytics sample_env [zero_report]))) = [IntV 0] \<and>
   pass_rate (auth_dkim (projr (generate_analytics sample_env [zero_report]))) = IntV 0 \<and>
   map info_compliance_rate
     (top_sources (projr (generate_analytics sample_env [sample_report]))) =
     [FloatV 10000, FloatV 0]"
proof -
  let ?Z = "projr (generate_analytics sample_env [zero_report])"
  let ?S = "projr (generate_analytics sample_env [sample_report])"
  note z = compliance_rate_guard [of sample_env "[zero_report]"]
  note s = compliance_rate_guard [of sample_env "[sample_report]"]
  from z zero_returns have
    zt: "\<forall>e \<in> set (top_sources ?Z).
          guarded_rate sample_env (info_dmarc_pass e) (info_count e) (info_compliance_rate e)"
    and zl: "\<forall>t \<in> set (timeline ?Z).
          guarded_rate sample_env (tl_dmarc_pass t) (tl_total t) (tl_compliance_rate t)"
    and zd: "guarded_rate sample_env (pass (auth_dkim ?Z)) (summary_total_messages ?Z)
          (pass_rate (auth_dkim ?Z))"
    by blast+
  from s sample_returns have
    st: "\<forall>e \<in> set (top_sources ?S).
          guarded_rate sample_env (info_dmarc_pass e) (info_count e) (info_compliance_rate e)"
    by blast
  obtain e where e: "top_sources ?Z = [e]" "info_count e = 0"
    using zero_top_sources by auto
  obtain t where t: "timeline ?Z = [t]" "tl_total t = 0"
    using zero_timeline by auto
  obtain e1 e2 where es: "top_sources ?S = [e1, e2]" "info_count e1 = 100" "info_count e2 = 50"
    "info_dmarc_pass e1 = 100" "info_dmarc_pass e2 = 0"
    using sample_top_sources by auto
  have tot: "summary_total_messages ?Z = 0"
    by code_simp
  have 1: "map info_compliance_rate (top_sources ?Z) = [IntV 0]"
    using zt e by (simp add: guarded_rate_def)
  have 2: "map tl_compliance_rate (timeline ?Z) = [IntV 0]"
    using zl t by (simp add: guarded_rate_def)
  have 3: "pass_rate (auth_dkim ?Z) = IntV 0"
    using zd tot by (simp add: guarded_rate_def)
  have 4: "map info_compliance_rate (top_sources ?S) = [FloatV 10000, FloatV 0]"
    using st es by (auto simp: guarded_rate_def sample_env_def)
  from z 1 2 3 4 show ?thesis by blast
qed


subsection \<open>When the aggregator returns\<close>

text \<open>
  The aggregator raises only where a date does not format or a true division
  overflows: in an environment where neither happens it returns a result for every
  list of reports.
\<close>

lemma map_exn_total:
  "(\<And>x. x \<in> set xs \<Longrightarrow> \<exists>y. f x = Inr y) \<Longrightarrow> \<exists>ys. map_exn f xs = Inr ys"
proof (induction xs)
  case Nil
  then show ?case by simp
next
  case (Cons x xs)
  from Cons.prems [of x] obtain y where y: "f x = Inr y" by auto
  from Cons.IH Cons.prems obtain ys where ys: "map_exn f xs = Inr ys" by auto
  show ?case by (simp add: y ys)
qed

lemma rate_total:
  assumes "\<And>p c. c \<noteq> 0 \<Longrightarrow> round_pct env p c \<noteq> None"
  shows "\<exists>v. rate env p c = Inr v"
proof (cases "c > 0")
  case True
  then have "round_pct env p c \<noteq> None" using assms [of c p] by simp
  with True show ?thesis by (auto simp: rate_def truediv_pct_def)
next
  case False
  then show ?thesis by (simp add: rate_def)
qed

lemma process_records_total:
  assumes "\<And>t. fromtimestamp_ymd env t \<noteq> None"
  shows "\<exists>a'. process_records env rep rs a = Inr a'"
proof (induction rs arbitrary: a)
  case Nil
  then show ?case by simp
next
  case (Cons r rs)
  from assms [of "date_begin rep"] obtain d where
    d: "fromtimestamp_ymd env (date_begin rep) = Some d" by auto
  show ?case using Cons.IH by (simp add: d Let_def)
qed

lemma process_reports_total:
  assumes "\<And>t. fromtimestamp_ymd env t \<noteq> None"
  shows "\<exists>a'. process_reports env reports a = Inr a'"
proof (induction reports arbitrary: a)
  case Nil
  then show ?case by simp
next
  case (Cons rep reps)
  from process_records_total [OF assms] obtain a1 where
    "process_records env rep (records rep) (report_header rep a) = Inr a1" by blast
  with Cons.IH [of a1] show ?case by simp
qed

lemma date_or_none_total:
  assumes "\<And>t. fromtimestamp_ymd env t \<noteq> None"
  shows "\<exists>s. date_or_none env t = Inr s"
proof (cases t)
  case None
  then show ?thesis by (simp add: date_or_none_def)
next
  case (Some v)
  from assms [of v] obtain d where "fromtimestamp_ymd env v = Some d" by auto
  with Some show ?thesis by (simp add: date_or_none_def)
qed

lemma generate_analytics_returns:
  assumes day: "\<And>t. fromtimestamp_ymd env t \<noteq> None"
    and div: "\<And>p c. c \<noteq> 0 \<Longrightarrow> round_pct env p c \<noteq> None"
  shows "\<exists>res. generate_analytics env reports = Inr res"
proof -
  from process_reports_total [OF day] obtain a where
    a: "process_reports env reports acc_init = Inr a" by blast
  have "\<exists>y. make_ip_info env kv = Inr y" for kv
  proof -
    obtain k s where kv: "kv = (k, s)" by (cases kv)
    from rate_total [OF div] obtain v where
      "rate env (ip_dmarc_pass s) (ip_count s) = Inr v" by blast
    then show ?thesis by (simp add: kv make_ip_info_def)
  qed
  then obtain l where l: "map_exn (make_ip_info env) (ip_data a) = Inr l"
    using map_exn_total [of "ip_data a" "make_ip_info env"] by blast
  have "\<exists>y. make_timeline_entry env (daily_stats a) d = Inr y" for d
  proof -
    from rate_total [OF div] obtain v where
      "rate env (day_dmarc_pass (dd_get day_default d (daily_stats a)))
         (day_total (dd_get day_default d (daily_stats a))) = Inr v" by blast
    then show ?thesis by (simp add: make_timeline_entry_def Let_def)
  qed
  then obtain tls where tls: "map_exn (make_timeline_entry env (daily_stats a))
      (sort (map fst (daily_stats a))) = Inr tls"
    using map_exn_total [of "sort (map fst (daily_stats a))"
        "make_timeline_entry env (daily_stats a)"] by blast
  from rate_total [OF div] obtain r1 where
    r1: "rate env (dkim_pass a) (total_messages a) = Inr r1" by blast
  from rate_total [OF div] obtain r2 where
    r2: "rate env (spf_pass a) (total_messages a) = Inr r2" by blast
  from rate_total [OF div] obtain r3 where
    r3: "rate env (dmarc_pass a) (total_messages a) = Inr r3" by blast
  from date_or_none_total [OF day] obtain s1 where
    s1: "date_or_none env (earliest a) = Inr s1" by blast
  from date_or_none_total [OF day] obtain s2 where
    s2: "date_or_none env (latest a) = Inr s2" by blast
  show ?thesis
    by (simp add: generate_analytics_def a finish_def l tls r1 r2 r3 s1 s2 bind_exn_def Let_def)
qed


subsection \<open>The sources in order\<close>

lemma first_seen_less: "x \<in> set xs \<Longrightarrow> first_seen xs x < length xs"
  unfolding first_seen_def by (induction xs) auto

lemma first_seen_append_old: "x \<in> set xs \<Longrightarrow> first_seen (xs @ ys) x = first_seen xs x"
  unfolding first_seen_def by (induction xs) auto

lemma first_seen_append_new: "x \<notin> set xs \<Longrightarrow> first_seen (xs @ [x]) x = length xs"
  unfolding first_seen_def by (induction xs) auto

text \<open>The keys of \<open>ip_data\<close> are the sources in the order of their first record.\<close>

lemma keys_order_step:
  fixes K ips :: "'a list" and x :: 'a
  assumes dist: "distinct K" and keys: "set K = set ips"
    and ord: "sorted_wrt (\<lambda>k1 k2. first_seen ips k1 < first_seen ips k2) K"
  defines "K' \<equiv> (if x \<in> set K then K else K @ [x])"
  shows "distinct K' \<and> set K' = set (ips @ [x]) \<and>
         sorted_wrt (\<lambda>k1 k2. first_seen (ips @ [x]) k1 < first_seen (ips @ [x]) k2) K'"
proof -
  have old: "first_seen (ips @ [x]) k = first_seen ips k" if "k \<in> set K" for k
    using that keys by (simp add: first_seen_append_old)
  have ord': "sorted_wrt (\<lambda>k1 k2. first_seen (ips @ [x]) k1 < first_seen (ips @ [x]) k2) K"
    using ord old by (simp add: sorted_wrt_iff_nth_less)
  show ?thesis
  proof (cases "x \<in> set K")
    case True
    then show ?thesis using dist keys ord' by (auto simp: K'_def)
  next
    case False
    then have new: "first_seen (ips @ [x]) x = length ips"
      using keys by (simp add: first_seen_append_new)
    have "first_seen (ips @ [x]) k < first_seen (ips @ [x]) x" if "k \<in> set K" for k
      using that keys old [OF that] first_seen_less [of k ips] new by simp
    then show ?thesis
      using False dist keys ord' by (auto simp: K'_def sorted_wrt_append)
  qed
qed

lemma ip_keys_order:
  "distinct (map fst (fold (\<lambda>r. dd_update (g r) d (source_ip r)) rs [])) \<and>
   set (map fst (fold (\<lambda>r. dd_update (g r) d (source_ip r)) rs [])) = set (map source_ip rs) \<and>
   sorted_wrt (\<lambda>k1 k2. first_seen (map source_ip rs) k1 < first_seen (map source_ip rs) k2)
     (map fst (fold (\<lambda>r. dd_update (g r) d (source_ip r)) rs []))"
proof (induction rs rule: rev_induct)
  case Nil
  then show ?case by simp
next
  case (snoc r rs)
  define K where "K = map fst (fold (\<lambda>r. dd_update (g r) d (source_ip r)) rs [])"
  define ips where "ips = map source_ip rs"
  from snoc have dist: "distinct K" and keys: "set K = set ips"
    and ord: "sorted_wrt (\<lambda>k1 k2. first_seen ips k1 < first_seen ips k2) K"
    by (simp_all add: K_def ips_def)
  have K': "map fst (fold (\<lambda>r. dd_update (g r) d (source_ip r)) (rs @ [r]) []) =
      (if source_ip r \<in> set K then K else K @ [source_ip r])"
    by (simp add: keys_dd_update K_def)
  have ips': "map source_ip (rs @ [r]) = ips @ [source_ip r]"
    by (simp add: ips_def)
  show ?case
    unfolding K' ips' using dist keys ord by (rule keys_order_step)
qed

lemma sorted_wrt_filter_iff:
  "sorted_wrt R (filter P xs) = sorted_wrt (\<lambda>x y. P x \<and> P y \<longrightarrow> R x y) xs"
  by (induction xs) auto

text \<open>A stable sort keeps a pairwise order among the items of equal key.\<close>

lemma sort_key_ties:
  fixes f :: "'a \<Rightarrow> int"
  assumes "sorted_wrt R xs"
  shows "sorted_wrt (\<lambda>x y. f x < f y \<or> (f x = f y \<and> R x y)) (sort_key f xs)"
proof -
  let ?S = "sort_key f xs"
  have s: "sorted (map f ?S)" by simp
  have tie: "R (?S ! i) (?S ! j)" if "i < j" "j < length ?S" "f (?S ! i) = f (?S ! j)" for i j
  proof -
    let ?k = "f (?S ! i)"
    have "sorted_wrt R (filter (\<lambda>y. f y = ?k) xs)"
      using assms by (rule sorted_wrt_filter)
    then have "sorted_wrt R (filter (\<lambda>y. f y = ?k) ?S)"
      by (simp add: sort_key_stable)
    then have "sorted_wrt (\<lambda>x y. f x = ?k \<and> f y = ?k \<longrightarrow> R x y) ?S"
      by (simp add: sorted_wrt_filter_iff)
    with that show ?thesis by (simp add: sorted_wrt_iff_nth_less)
  qed
  have "f (?S ! i) \<le> f (?S ! j)" if "i < j" "j < length ?S" for i j
    using s that by (simp add: sorted_iff_nth_mono less_imp_le)
  with tie show ?thesis
    by (fastforce simp: sorted_wrt_iff_nth_less)
qed

lemma map_exn_ip_keys:
  "map_exn (make_ip_info env) kvs = Inr l \<Longrightarrow> map info_ip l = map fst kvs"
proof (induction kvs arbitrary: l)
  case Nil
  then show ?case by simp
next
  case (Cons kv kvs)
  obtain k s where "kv = (k, s)" by (cases kv)
  with Cons show ?case
    by (auto split: sum.splits dest: make_ip_info_Inr(1))
qed

text \<open>
  Claim C5.  In every result of the aggregator, \<open>top_sources\<close> has length
  \<open>min(20, number of distinct source IPs)\<close> and is sorted by descending count, where the
  count of a source is the total of the counts of its records; sources of equal count
  stand in the order in which they were first encountered over the records of the
  reports in order.
\<close>

theorem top_sources_order:
  assumes "generate_analytics env reports = Inr res"
  shows "length (top_sources res) =
           min 20 (card (set (map source_ip (all_records reports)))) \<and>
         sorted_wrt (before_in_top (map source_ip (all_records reports))) (top_sources res) \<and>
         (\<forall>e \<in> set (top_sources res).
            info_count e =
              (\<Sum>r\<leftarrow>all_records reports. if source_ip r = info_ip e then count r else 0))"
proof -
  let ?ips = "map source_ip (all_records reports)"
  from assms obtain a where a: "process_reports env reports acc_init = Inr a"
    and fin: "finish env (length reports) a = Inr res"
    by (rule generate_analytics_Inr)
  from fin obtain ip_list0 where
    l: "map_exn (make_ip_info env) (ip_data a) = Inr ip_list0"
    and top: "top_sources res = take 20 (sort_by_count ip_list0)"
    by (rule finish_Inr)
  note f = process_reports_ip_data [OF a, simplified acc_init_fields]
  note k = ip_keys_order [of ip_step ip_default "all_records reports", folded f]
  note m = map_exn_ip_keys [OF l]
  from k have kd: "distinct (map fst (ip_data a))"
    and ks: "set (map fst (ip_data a)) = set ?ips"
    and ko: "sorted_wrt (\<lambda>k1 k2. first_seen ?ips k1 < first_seen ?ips k2)
               (map fst (ip_data a))"
    by blast+
  have len: "length ip_list0 = card (set ?ips)"
  proof -
    have "length ip_list0 = length (map info_ip ip_list0)" by simp
    also have "\<dots> = length (map fst (ip_data a))" by (simp only: m)
    also have "\<dots> = card (set (map fst (ip_data a)))"
      using kd by (rule distinct_card [symmetric])
    also have "\<dots> = card (set ?ips)" by (simp only: ks)
    finally show ?thesis .
  qed
  have "sorted_wrt (\<lambda>k1 k2. first_seen ?ips k1 < first_seen ?ips k2) (map info_ip ip_list0)"
    using ko by (simp only: m)
  then have "sorted_wrt (\<lambda>x y. first_seen ?ips (info_ip x) < first_seen ?ips (info_ip y))
      ip_list0"
    by (simp add: sorted_wrt_map)
  from sort_key_ties [OF this, of "\<lambda>x. - info_count x"]
  have "sorted_wrt (before_in_top ?ips) (sort_by_count ip_list0)"
    by (simp add: sort_by_count_def before_in_top_def [abs_def])
  then have 2: "sorted_wrt (before_in_top ?ips) (top_sources res)"
    unfolding top by (rule sorted_wrt_take)
  have 1: "length (top_sources res) = min 20 (card (set ?ips))"
    unfolding top using len by (simp add: sort_by_count_def min.commute)
  have 3: "info_count e =
      (\<Sum>r\<leftarrow>all_records reports. if source_ip r = info_ip e then count r else 0)"
    if "e \<in> set (top_sources res)" for e
  proof -
    from that have "e \<in> set ip_list0"
      unfolding top using set_sort_by_count [of ip_list0] by (auto dest: in_set_takeD)
    from source_entry(2) [OF a l this] show ?thesis .
  qed
  from 1 2 3 show ?thesis by blast
qed


lemma tie_returns:
  "generate_analytics sample_env [tie_report] =
     Inr (projr (generate_analytics sample_env [tie_report]))"
proof -
  have "\<not> isl (generate_analytics sample_env [tie_report])"
    by code_simp
  then show ?thesis by simp
qed

lemma tie_top_sources:
  "map info_ip (top_sources (projr (generate_analytics sample_env [tie_report]))) =
     [Some ''10.0.0.2'', Some ''10.0.0.1'', Some ''10.0.0.3'']"
  by code_simp

lemma tie_distinct_ips: "card (set (map source_ip (all_records [tie_report]))) = 3"
  by code_simp

theorem top_sources_order_witness:
  "length (top_sources (projr (generate_analytics sample_env [tie_report]))) = 3 \<and>
   sorted_wrt (before_in_top (map source_ip (all_records [tie_report])))
     (top_sources (projr (generate_analytics sample_env [tie_report]))) \<and>
   map info_ip (top_sources (projr (generate_analytics sample_env [tie_report]))) =
     [Some ''10.0.0.2'', Some ''10.0.0.1'', Some ''10.0.0.3'']"
  using top_sources_order [OF tie_returns] tie_top_sources
  by (simp only: tie_distinct_ips) simp


subsection \<open>The threats\<close>







section \<open>Properties of the parser\<close>








subsection \<open>A report without metadata\<close>

text \<open>
  Claim C6 says that a file without \<open>report_metadata\<close> parses to no report without
  raising.  For a root outside a namespace the prefix map of the parser is empty, and
  the second lookup of \<open>report_metadata\<close>, the one with the \<open>ns:\<close> prefix, raises
  \<open>SyntaxError\<close> before the test for \<open>None\<close> is reached.
\<close>

theorem missing_metadata_raises:
  assumes "take 1 (etag root) \<noteq> ''{''"
    and "elem_find root (Plain ''report_metadata'') = None"
  shows "parse_root env root = Inl SyntaxError"
  using assms by (simp add: parse_root_def elem_find_ns_def bind_exn_def)

theorem missing_metadata_raises_witness:
  "parse_root sample_env no_metadata_doc = Inl SyntaxError \<and>
   parse_all sample_env [(''/tmp/s/a.xml'', XmlDoc no_metadata_doc)] [''/tmp/s/a.xml''] =
     ([], [''Error parsing a.xml: prefix not found in prefix map''])"
proof -
  have 1: "take 1 (etag no_metadata_doc) \<noteq> ''{''"
    by (simp add: no_metadata_doc_def node_def)
  have 2: "elem_find no_metadata_doc (Plain ''report_metadata'') = None"
    by (simp add: no_metadata_doc_def node_def elem_find_def sample_policy_def
        sample_record_def)
  note r = missing_metadata_raises [OF 1 2, of sample_env]
  have "parse_all sample_env [(''/tmp/s/a.xml'', XmlDoc no_metadata_doc)] [''/tmp/s/a.xml''] =
     ([], [''Error parsing a.xml: prefix not found in prefix map''])"
    by (simp add: parse_dmarc_xml_def r basename_def)
  with r show ?thesis by simp
qed

text \<open>With the root in a namespace the parser returns \<open>None\<close>, as the claim says.\<close>

lemma missing_metadata_namespaced:
  assumes "take 1 (etag root) = ''{''"
    and "elem_find root (Plain ''report_metadata'') = None"
    and "elem_find_ns root (Prefixed ''report_metadata'') (Some dmarc_uri) = Inr None"
  shows "parse_root env root = Inr None"
  using assms by (simp add: parse_root_def bind_exn_def)

subsection \<open>The records of a file\<close>














section \<open>Properties of the unwrapper\<close>

subsection \<open>The dispatch on the suffix\<close>

text \<open>
  Claim C9 says that the unwrapper treats \<open>.ZIP\<close>, \<open>.Gz\<close>, \<open>.TAR\<close> and \<open>.XML\<close> in any casing
  as the lowercase suffix.  The upload gate does accept \<open>REPORT.XML\<close> and \<open>A.ZIP\<close>, since it
  lowers the extension, but the unwrapper compares the suffix as it is written: for both
  names it takes the branch of the unknown file type and returns no file, where the
  lowercase name is returned.
\<close>

theorem uppercase_suffix_unknown:
  "allowed_file ''REPORT.XML'' \<and> allowed_file ''A.ZIP'' \<and>
   extract_files fs ''/tmp/s/REPORT.XML'' ''/tmp/s'' = (fs, []) \<and>
   extract_files fs ''/tmp/s/A.ZIP'' ''/tmp/s'' = (fs, []) \<and>
   extract_files fs ''/tmp/s/report.xml'' ''/tmp/s'' = (fs, [''/tmp/s/report.xml''])"
proof -
  have 1: "allowed_file ''REPORT.XML''" "allowed_file ''A.ZIP''"
    by code_simp+
  have 2: "extract_files fs ''/tmp/s/REPORT.XML'' ''/tmp/s'' = (fs, [])"
    by (subst extract_files.simps) (simp add: basename_def endswith_def)
  have 3: "extract_files fs ''/tmp/s/A.ZIP'' ''/tmp/s'' = (fs, [])"
    by (subst extract_files.simps) (simp add: basename_def endswith_def)
  have 4: "extract_files fs ''/tmp/s/report.xml'' ''/tmp/s'' = (fs, [''/tmp/s/report.xml''])"
    by (subst extract_files.simps) (simp add: basename_def endswith_def)
  from 1 2 3 4 show ?thesis by blast
qed


subsection \<open>Archives and the files of earlier calls\<close>

lemma endswith_iff: "endswith s suf = (\<exists>pre. s = pre @ suf)"
proof
  assume "endswith s suf"
  then have "s = take (length s - length suf) s @ suf"
    by (metis append_take_drop_id endswith_def)
  then show "\<exists>pre. s = pre @ suf" ..
next
  assume "\<exists>pre. s = pre @ suf"
  then show "endswith s suf" by (auto simp: endswith_def)
qed

lemma endswith_append:
  "length suf \<le> length s \<Longrightarrow> endswith (pre @ s) suf = endswith s suf"
  by (auto simp: endswith_def)

lemma basename_no_slash: "CHR ''/'' \<notin> set (basename p)"
  unfolding basename_def by (auto dest: set_takeWhileD)

lemma basename_append_slash:
  assumes "CHR ''/'' \<notin> set b"
  shows "basename (a @ CHR ''/'' # b) = b"
proof -
  have "takeWhile (\<lambda>c. c \<noteq> CHR ''/'') (rev b @ CHR ''/'' # rev a) =
      rev b @ takeWhile (\<lambda>c. c \<noteq> CHR ''/'') (CHR ''/'' # rev a)"
    by (rule takeWhile_append2) (use assms in auto)
  then show ?thesis by (simp add: basename_def)
qed

lemma basename_id:
  assumes "CHR ''/'' \<notin> set b"
  shows "basename b = b"
proof -
  have "\<forall>x \<in> set (rev b). x \<noteq> CHR ''/''" using assms by auto
  then have tw: "takeWhile (\<lambda>c. c \<noteq> CHR ''/'') (rev b) = rev b"
    by (simp only: takeWhile_eq_all_conv)
  show ?thesis unfolding basename_def tw by simp
qed

lemma join_cases:
  obtains "join a b = b" | pre where "join a b = pre @ CHR ''/'' # b"
proof (cases "take 1 b = ''/'' \<or> a = []")
  case True
  then have "join a b = b" by (auto simp: join_def)
  then show thesis by (rule that(1))
next
  case False
  show thesis
  proof (cases "endswith a ''/''")
    case True
    then obtain pre where "a = pre @ ''/''" by (auto simp: endswith_iff)
    then have "join a b = pre @ CHR ''/'' # b" using False True by (simp add: join_def)
    then show thesis by (rule that(2))
  next
    case e: False
    then have "join a b = a @ CHR ''/'' # b" using False by (simp add: join_def)
    then show thesis by (rule that(2))
  qed
qed

lemma basename_join: "CHR ''/'' \<notin> set b \<Longrightarrow> basename (join a b) = b"
  by (rule join_cases [of a b]) (simp_all add: basename_id basename_append_slash)

lemma endswith_join:
  "length suf \<le> length b \<Longrightarrow> endswith (join a b) suf = endswith b suf"
proof (rule join_cases [of a b])
  assume "join a b = b"
  then show ?thesis by simp
next
  fix pre
  assume l: "length suf \<le> length b" and j: "join a b = pre @ CHR ''/'' # b"
  have "endswith ((pre @ ''/'') @ b) suf = endswith b suf"
    using l by (rule endswith_append)
  then show ?thesis by (simp add: j)
qed

lemma map_of_fs_write: "map_of (fs_write fs p c) p = Some c"
  by (induction fs) auto

lemma keys_fs_write:
  "map fst (fs_write fs p c) =
     (if p \<in> set (map fst fs) then map fst fs else map fst fs @ [p])"
  by (induction fs) force+

lemma keys_extractall: "set (map fst fs) \<subseteq> set (map fst (extractall fs dir es))"
proof (induction es arbitrary: fs)
  case Nil
  then show ?case by simp
next
  case (Cons e es)
  obtain name c where e: "e = (name, c)" by (cases e)
  have "set (map fst fs) \<subseteq> set (map fst (fs_write fs (join dir name) c))"
    by (auto simp: keys_fs_write)
  also have "\<dots> \<subseteq> set (map fst (extractall (fs_write fs (join dir name) c) dir es))"
    by (rule Cons.IH)
  finally show ?case by (simp add: e)
qed

lemma find_xml_files_mono:
  "set (map fst fs) \<subseteq> set (map fst fs') \<Longrightarrow>
     set (find_xml_files dir fs) \<subseteq> set (find_xml_files dir fs')"
  by (auto simp: find_xml_files_def)

text \<open>The three successful cases of the unwrapper on an archive.\<close>

lemma tar_gz_stem:
  assumes "endswith name ''.tar.gz''"
  shows "endswith name ''.gz''" and "\<not> endswith name ''.zip''"
    and "take (length name - 3) name \<noteq> []"
    and "endswith (take (length name - 3) name) ''.tar''"
    and "\<not> endswith (take (length name - 3) name) ''.zip''"
    and "\<not> endswith (take (length name - 3) name) ''.gz''"
    and "\<not> endswith (take (length name - 3) name) ''.xml''"
proof -
  from assms obtain pre where n: "name = pre @ ''.tar.gz''" by (auto simp: endswith_iff)
  have s: "take (length name - 3) name = pre @ ''.tar''" by (simp add: n)
  show "endswith name ''.gz''" "\<not> endswith name ''.zip''"
    by (simp_all add: n endswith_def)
  show "take (length name - 3) name \<noteq> []" by (simp add: s)
  show "endswith (take (length name - 3) name) ''.tar''"
    "\<not> endswith (take (length name - 3) name) ''.zip''"
    "\<not> endswith (take (length name - 3) name) ''.gz''"
    "\<not> endswith (take (length name - 3) name) ''.xml''"
    by (simp_all add: s endswith_def)
qed

lemma extract_zip:
  assumes "endswith (basename p) ''.zip''" and "map_of fs p = Some (ZipArchive es)"
  shows "extract_files fs p dir =
     (extractall fs dir es, find_xml_files dir (extractall fs dir es))"
  by (subst extract_files.simps) (simp add: assms Let_def)

lemma extract_tar:
  assumes "\<not> endswith (basename p) ''.zip''" and "\<not> endswith (basename p) ''.gz''"
    and "endswith (basename p) ''.tar''"
    and "map_of fs p = Some (TarArchive es) \<or> map_of fs p = Some (GzipFile (TarArchive es))"
  shows "extract_files fs p dir =
     (extractall fs dir es, find_xml_files dir (extractall fs dir es))"
  using assms(4) by (subst extract_files.simps) (auto simp: assms(1-3) Let_def)

lemma extract_tar_gz:
  assumes tg: "endswith (basename p) ''.tar.gz''"
    and c: "map_of fs p = Some (GzipFile (TarArchive es))"
  shows "extract_files fs p dir = (unpacked fs p dir es, find_xml_files dir (unpacked fs p dir es))"
proof -
  define stem where "stem = take (length (basename p) - 3) (basename p)"
  define out where "out = join dir stem"
  define fs1 where "fs1 = fs_write fs out (TarArchive es)"
  note t = tar_gz_stem [OF tg, folded stem_def]
  have ns: "CHR ''/'' \<notin> set stem"
    using basename_no_slash [of p] unfolding stem_def by (auto dest: in_set_takeD)
  have b: "basename out = stem" unfolding out_def using ns by (rule basename_join)
  have "length stem \<ge> 4" using t(4) by (simp add: endswith_def)
  then have x: "\<not> endswith out ''.xml''"
    unfolding out_def using t(7) by (simp add: endswith_join)
  have inner: "extract_files fs1 out dir =
      (extractall fs1 dir es, find_xml_files dir (extractall fs1 dir es))"
    by (rule extract_tar) (simp_all add: b t fs1_def map_of_fs_write)
  have "extract_files fs p dir = extract_files fs1 out dir"
    by (subst extract_files.simps)
      (simp add: t c Let_def x stem_def [symmetric] out_def [symmetric] fs1_def [symmetric])
  also have "\<dots> = (unpacked fs p dir es, find_xml_files dir (unpacked fs p dir es))"
    unfolding inner by (simp add: unpacked_def t fs1_def out_def stem_def)
  finally show ?thesis .
qed

lemma extract_archive:
  assumes "archive_entries fs p = Some es"
  shows "extract_files fs p dir =
     (unpacked fs p dir es, find_xml_files dir (unpacked fs p dir es))"
proof (cases "endswith (basename p) ''.zip''")
  case True
  with assms have "map_of fs p = Some (ZipArchive es)"
    by (auto simp: archive_entries_def Let_def split: option.splits content.splits)
  with True show ?thesis by (simp add: extract_zip unpacked_def)
next
  case nz: False
  show ?thesis
  proof (cases "endswith (basename p) ''.tar.gz''")
    case True
    with assms nz have "map_of fs p = Some (GzipFile (TarArchive es))"
      by (auto simp: archive_entries_def Let_def split: option.splits content.splits)
    with True show ?thesis by (rule extract_tar_gz)
  next
    case ntg: False
    from assms nz ntg have ng: "\<not> endswith (basename p) ''.gz''"
      and tar: "endswith (basename p) ''.tar''"
      and c: "map_of fs p = Some (TarArchive es) \<or>
              map_of fs p = Some (GzipFile (TarArchive es))"
      by (auto simp: archive_entries_def Let_def split: option.splits content.splits if_splits)
    from nz ng tar c show ?thesis by (simp add: extract_tar unpacked_def)
  qed
qed

lemma unpacked_keeps: "set (map fst fs) \<subseteq> set (map fst (unpacked fs p dir es))"
proof (cases "endswith (basename p) ''.gz'' \<and> \<not> endswith (basename p) ''.zip''")
  case True
  let ?out = "join dir (take (length (basename p) - 3) (basename p))"
  have "set (map fst fs) \<subseteq> set (map fst (fs_write fs ?out (TarArchive es)))"
    by (auto simp: keys_fs_write)
  also have "\<dots> \<subseteq> set (map fst (extractall (fs_write fs ?out (TarArchive es)) dir es))"
    by (rule keys_extractall)
  finally show ?thesis using True by (simp add: unpacked_def)
next
  case False
  then have "unpacked fs p dir es = extractall fs dir es"
    unfolding unpacked_def by (rule if_not_P)
  then show ?thesis using keys_extractall [of fs dir es] by simp
qed

lemma parse_all_append:
  "parse_all env fs (xs @ ys) =
     (fst (parse_all env fs xs) @ fst (parse_all env fs ys),
      snd (parse_all env fs xs) @ snd (parse_all env fs ys))"
  by (induction xs) (auto split: prod.splits sum.splits option.splits)

lemma parse_all_mem:
  "x \<in> set xs \<Longrightarrow> parse_dmarc_xml env fs x = Inr (Some rep) \<Longrightarrow>
     rep \<in> set (fst (parse_all env fs xs))"
  by (induction xs) (auto split: prod.splits sum.splits option.splits)

lemma count_list_pos: "x \<in> set xs \<Longrightarrow> 1 \<le> count_list xs x"
  by (induction xs) auto


text \<open>
  Claim C10.  A call of the unwrapper on a \<open>.zip\<close>, \<open>.tar\<close> or \<open>.tar.gz\<close> path whose archive
  opens returns every file ending in \<open>.xml\<close> below the extraction directory after the
  extraction, the XML files that were there before the call included.  So in a batch of
  two archives the XML files of the first call are returned by the second call again:
  each of them is at least twice in the list of the batch, its report is at least twice
  in the list of the parsed reports, and \<open>files_processed\<close> and the total of the messages
  count that list as it is.
\<close>

theorem archives_rescan:
  assumes a1: "archive_entries fs p1 = Some es1"
    and a2: "archive_entries (unpacked fs p1 dir es1) p2 = Some es2"
  shows "let fs1 = unpacked fs p1 dir es1;
             fs2 = unpacked fs1 p2 dir es2;
             xs1 = find_xml_files dir fs1;
             xs2 = find_xml_files dir fs2;
             reports = fst (parse_all env fs2 (xs1 @ xs2))
         in extract_files fs p1 dir = (fs1, xs1) \<and>
            extract_files fs1 p2 dir = (fs2, xs2) \<and>
            set (find_xml_files dir fs) \<subseteq> set xs1 \<and>
            set xs1 \<subseteq> set xs2 \<and>
            extract_all fs [p1, p2] dir = (fs2, xs1 @ xs2) \<and>
            (\<forall>x \<in> set xs1. 2 \<le> count_list (xs1 @ xs2) x) \<and>
            (\<forall>x \<in> set xs1. \<forall>rep. parse_dmarc_xml env fs2 x = Inr (Some rep) \<longrightarrow>
               2 \<le> count_list reports rep) \<and>
            (\<forall>a. analytics (process_files env fs [p1, p2] dir) = Some a \<longrightarrow>
               files_processed (process_files env fs [p1, p2] dir) = length reports \<and>
               summary_total_messages a = (\<Sum>r\<leftarrow>all_records reports. count r))"
proof -
  define fs1 where "fs1 = unpacked fs p1 dir es1"
  define fs2 where "fs2 = unpacked fs1 p2 dir es2"
  define xs1 where "xs1 = find_xml_files dir fs1"
  define xs2 where "xs2 = find_xml_files dir fs2"
  define reports where "reports = fst (parse_all env fs2 (xs1 @ xs2))"
  have e1: "extract_files fs p1 dir = (fs1, xs1)"
    unfolding fs1_def xs1_def using a1 by (rule extract_archive)
  have e2: "extract_files fs1 p2 dir = (fs2, xs2)"
    unfolding fs2_def xs2_def using a2 [folded fs1_def] by (rule extract_archive)
  have s0: "set (find_xml_files dir fs) \<subseteq> set xs1"
    unfolding xs1_def fs1_def by (rule find_xml_files_mono) (rule unpacked_keeps)
  have s1: "set xs1 \<subseteq> set xs2"
    unfolding xs1_def xs2_def fs2_def by (rule find_xml_files_mono) (rule unpacked_keeps)
  have ea: "extract_all fs [p1, p2] dir = (fs2, xs1 @ xs2)"
    by (simp add: e1 e2)
  have c1: "2 \<le> count_list (xs1 @ xs2) x" if "x \<in> set xs1" for x
  proof -
    from that s1 have "x \<in> set xs2" by blast
    with that show ?thesis
      using count_list_pos [of x xs1] count_list_pos [of x xs2] by simp
  qed
  have c2: "2 \<le> count_list reports rep"
    if "x \<in> set xs1" and "parse_dmarc_xml env fs2 x = Inr (Some rep)" for x rep
  proof -
    from that s1 have "x \<in> set xs2" by blast
    with that have "rep \<in> set (fst (parse_all env fs2 xs1))"
      and "rep \<in> set (fst (parse_all env fs2 xs2))"
      by (auto intro: parse_all_mem)
    then show ?thesis
      unfolding reports_def parse_all_append [of env fs2 xs1 xs2]
      using count_list_pos [of rep "fst (parse_all env fs2 xs1)"]
        count_list_pos [of rep "fst (parse_all env fs2 xs2)"] by simp
  qed
  have c3: "files_processed (process_files env fs [p1, p2] dir) = length reports \<and>
      summary_total_messages a = (\<Sum>r\<leftarrow>all_records reports. count r)"
    if an: "analytics (process_files env fs [p1, p2] dir) = Some a" for a
  proof -
    obtain errs where pa: "parse_all env fs2 (xs1 @ xs2) = (reports, errs)"
      unfolding reports_def by (cases "parse_all env fs2 (xs1 @ xs2)") simp
    have pf: "process_files env fs [p1, p2] dir =
        (if xs1 @ xs2 = [] then
          \<lparr>error = Some ''No valid DMARC XML files found'', parse_errors = None,
           files_processed = 0, analytics = None\<rparr>
         else if reports = [] then
           \<lparr>error = Some ''No valid DMARC reports could be parsed'',
            parse_errors = Some errs, files_processed = 0, analytics = None\<rparr>
         else
           (case generate_analytics env reports of
              Inr a \<Rightarrow>
                \<lparr>error = None, parse_errors = Some errs,
                 files_processed = length reports, analytics = Some a\<rparr>
            | Inl e \<Rightarrow>
                \<lparr>error = Some (''Processing failed: '' @ str_exn e), parse_errors = None,
                 files_processed = 0, analytics = None\<rparr>))"
      unfolding process_files_def ea by (simp add: pa)
    from an have g: "generate_analytics env reports = Inr a"
      and fp: "files_processed (process_files env fs [p1, p2] dir) = length reports"
      unfolding pf by (auto split: if_splits sum.splits)
    from g obtain ac where ac: "process_reports env reports acc_init = Inr ac"
      and fin: "finish env (length reports) ac = Inr a"
      by (rule generate_analytics_Inr)
    have "summary_total_messages a = (\<Sum>r\<leftarrow>all_records reports. count r)"
      using process_reports_totals [OF ac] finish_fields [OF fin]
      by (simp add: acc_init_fields)
    with fp show ?thesis by simp
  qed
  from e1 e2 s0 s1 ea c1 c2 c3 show ?thesis
    unfolding Let_def fs1_def [symmetric] fs2_def [symmetric] xs1_def [symmetric]
      xs2_def [symmetric] reports_def [symmetric]
    by blast
qed

lemma two_zips_first:
  "archive_entries two_zips ''/tmp/s/a.zip'' = Some [(''a.xml'', XmlDoc sample_doc)]"
  by (simp add: archive_entries_def two_zips_def basename_def endswith_def)

lemma two_zips_second:
  "archive_entries (unpacked two_zips ''/tmp/s/a.zip'' ''/tmp/s'' [(''a.xml'', XmlDoc sample_doc)])
     ''/tmp/s/b.zip'' = Some [(''b.xml'', XmlDoc sample_doc)]"
  by (simp add: archive_entries_def unpacked_def two_zips_def basename_def endswith_def
      join_def)

lemma two_zips_lists:
  "find_xml_files ''/tmp/s''
     (unpacked two_zips ''/tmp/s/a.zip'' ''/tmp/s'' [(''a.xml'', XmlDoc sample_doc)]) =
     [''/tmp/s/a.xml'']"
  "find_xml_files ''/tmp/s''
     (unpacked (unpacked two_zips ''/tmp/s/a.zip'' ''/tmp/s'' [(''a.xml'', XmlDoc sample_doc)])
        ''/tmp/s/b.zip'' ''/tmp/s'' [(''b.xml'', XmlDoc sample_doc)]) =
     [''/tmp/s/a.xml'', ''/tmp/s/b.xml'']"
  by (simp_all add: find_xml_files_def unpacked_def two_zips_def basename_def endswith_def
      join_def in_dir_def)

lemma two_zips_processed:
  "files_processed
     (process_files sample_env two_zips [''/tmp/s/a.zip'', ''/tmp/s/b.zip''] ''/tmp/s'') = 3"
  "map_option summary_total_messages
     (analytics
        (process_files sample_env two_zips [''/tmp/s/a.zip'', ''/tmp/s/b.zip''] ''/tmp/s'')) =
     Some 30"
  by code_simp+

theorem archives_rescan_witness:
  "snd (extract_all two_zips [''/tmp/s/a.zip'', ''/tmp/s/b.zip''] ''/tmp/s'') =
     [''/tmp/s/a.xml'', ''/tmp/s/a.xml'', ''/tmp/s/b.xml''] \<and>
   files_processed
     (process_files sample_env two_zips [''/tmp/s/a.zip'', ''/tmp/s/b.zip''] ''/tmp/s'') = 3 \<and>
   map_option summary_total_messages
     (analytics
        (process_files sample_env two_zips [''/tmp/s/a.zip'', ''/tmp/s/b.zip''] ''/tmp/s'')) =
     Some 30"
proof -
  from archives_rescan [OF two_zips_first two_zips_second, of sample_env]
  have "snd (extract_all two_zips [''/tmp/s/a.zip'', ''/tmp/s/b.zip''] ''/tmp/s'') =
     [''/tmp/s/a.xml'', ''/tmp/s/a.xml'', ''/tmp/s/b.xml'']"
    unfolding Let_def two_zips_lists by simp
  with two_zips_processed show ?thesis by simp
qed


section \<open>Properties of the entry point\<close>







end
